theory Spec2Isabelle
  imports Main "HOL-Library.Char_ord" "HOL-Library.List_Lexorder"
begin

section \<open>Strings: the functions of Go's \<open>strings\<close> package the crawler uses\<close>

text \<open>
  A Go string is a sequence of bytes; \<open>string\<close> (a list of 8-bit characters) is the
  same thing.  Indices that Go reports as \<open>-1\<close> are \<open>None\<close> here.
\<close>

definition HasPrefix :: "string \<Rightarrow> string \<Rightarrow> bool" where
  "HasPrefix s p = (take (length p) s = p)"

definition HasSuffix :: "string \<Rightarrow> string \<Rightarrow> bool" where
  "HasSuffix s p = (length p \<le> length s \<and> drop (length s - length p) s = p)"

fun Index :: "string \<Rightarrow> string \<Rightarrow> nat option" where
  "Index [] sub = (if sub = [] then Some 0 else None)"
| "Index (c # cs) sub =
     (if HasPrefix (c # cs) sub then Some 0 else map_option Suc (Index cs sub))"

fun LastIndex :: "string \<Rightarrow> string \<Rightarrow> nat option" where
  "LastIndex [] sub = (if sub = [] then Some 0 else None)"
| "LastIndex (c # cs) sub =
     (case LastIndex cs sub of
        Some i \<Rightarrow> Some (Suc i)
      | None \<Rightarrow> if HasPrefix (c # cs) sub then Some 0 else None)"

definition Contains :: "string \<Rightarrow> string \<Rightarrow> bool" where
  "Contains s sub = (Index s sub \<noteq> None)"

definition Cut :: "string \<Rightarrow> string \<Rightarrow> string \<times> string \<times> bool" where
  "Cut s sep =
     (case Index s sep of
        None \<Rightarrow> (s, [], False)
      | Some i \<Rightarrow> (take i s, drop (i + length sep) s, True))"

text \<open>\<open>strings.Count(s, sub)\<close> for a \<open>sub\<close> of one byte.\<close>

definition CountByte :: "string \<Rightarrow> char \<Rightarrow> nat" where
  "CountByte s c = length (filter (\<lambda>x. x = c) s)"

text \<open>\<open>strings.Split(s, sep)\<close> for a \<open>sep\<close> of one byte: never an empty list.\<close>

fun SplitByte :: "string \<Rightarrow> char \<Rightarrow> string list" where
  "SplitByte [] sep = [[]]"
| "SplitByte (c # cs) sep =
     (if c = sep then [] # SplitByte cs sep
      else (c # hd (SplitByte cs sep)) # tl (SplitByte cs sep))"

fun Join :: "string list \<Rightarrow> string \<Rightarrow> string" where
  "Join [] sep = []"
| "Join [p] sep = p"
| "Join (p # q # ps) sep = p @ sep @ Join (q # ps) sep"

definition isUpper :: "char \<Rightarrow> bool" where
  "isUpper c = (c \<in> set ''ABCDEFGHIJKLMNOPQRSTUVWXYZ'')"

definition isLower :: "char \<Rightarrow> bool" where
  "isLower c = (c \<in> set ''abcdefghijklmnopqrstuvwxyz'')"

definition isDigit :: "char \<Rightarrow> bool" where
  "isDigit c = (c \<in> set ''0123456789'')"

text \<open>\<open>strings.ToLower\<close> on the bytes of ASCII (the scheme of a URL has no other).\<close>

definition toLowerByte :: "char \<Rightarrow> char" where
  "toLowerByte c = (if isUpper c then char_of (of_char c + (32::nat)) else c)"

definition ToLower :: "string \<Rightarrow> string" where
  "ToLower s = map toLowerByte s"

text \<open>
  \<open>strings.TrimSpace\<close> removes the leading and trailing code points of Unicode's
  White_Space property.  A code point is removed exactly when its UTF-8 encoding
  stands at the end of the string that is being trimmed, so the model strips the encodings:
  U+0009..U+000D, U+0020, U+0085, U+00A0, U+1680, U+2000..U+200A, U+2028, U+2029,
  U+202F, U+205F, U+3000.
\<close>

definition spaceRunes :: "string list" where
  "spaceRunes =
     [[CHR 0x09], [CHR 0x0A], [CHR 0x0B], [CHR 0x0C], [CHR 0x0D], [CHR 0x20],
      [CHR 0xC2, CHR 0x85], [CHR 0xC2, CHR 0xA0], [CHR 0xE1, CHR 0x9A, CHR 0x80],
      [CHR 0xE2, CHR 0x80, CHR 0x80], [CHR 0xE2, CHR 0x80, CHR 0x81],
      [CHR 0xE2, CHR 0x80, CHR 0x82], [CHR 0xE2, CHR 0x80, CHR 0x83],
      [CHR 0xE2, CHR 0x80, CHR 0x84], [CHR 0xE2, CHR 0x80, CHR 0x85],
      [CHR 0xE2, CHR 0x80, CHR 0x86], [CHR 0xE2, CHR 0x80, CHR 0x87],
      [CHR 0xE2, CHR 0x80, CHR 0x88], [CHR 0xE2, CHR 0x80, CHR 0x89],
      [CHR 0xE2, CHR 0x80, CHR 0x8A], [CHR 0xE2, CHR 0x80, CHR 0xA8],
      [CHR 0xE2, CHR 0x80, CHR 0xA9], [CHR 0xE2, CHR 0x80, CHR 0xAF],
      [CHR 0xE2, CHR 0x81, CHR 0x9F], [CHR 0xE3, CHR 0x80, CHR 0x80]]"

text \<open>Whether one of the encodings \<open>ws\<close> starts \<open>s\<close>, and how many bytes it has.\<close>

fun leadingRune :: "string list \<Rightarrow> string \<Rightarrow> nat option" where
  "leadingRune [] s = None"
| "leadingRune (w # ws) s =
     (if w \<noteq> [] \<and> HasPrefix s w then Some (length w) else leadingRune ws s)"

fun trimLeftRunes :: "nat \<Rightarrow> string list \<Rightarrow> string \<Rightarrow> string" where
  "trimLeftRunes 0 ws s = s"
| "trimLeftRunes (Suc n) ws s =
     (case leadingRune ws s of
        None \<Rightarrow> s
      | Some k \<Rightarrow> trimLeftRunes n ws (drop k s))"

definition TrimLeftSpace :: "string \<Rightarrow> string" where
  "TrimLeftSpace s = trimLeftRunes (length s) spaceRunes s"

definition TrimRightSpace :: "string \<Rightarrow> string" where
  "TrimRightSpace s = rev (trimLeftRunes (length s) (map rev spaceRunes) (rev s))"

definition TrimSpace :: "string \<Rightarrow> string" where
  "TrimSpace s = TrimRightSpace (TrimLeftSpace s)"

section \<open>URLs: Go's \<open>net/url\<close> (go 1.24, as the module file asks for)\<close>

text \<open>
  \<open>NormalizeURL\<close>, \<open>ResolveLink\<close> and the follow policy are written on top of
  \<open>url.Parse\<close>, \<open>URL.String\<close> and \<open>URL.ResolveReference\<close> of the standard
  library.  Their results decide the claims, so the library functions are embedded
  too, function by function and under their own names.
\<close>

record Userinfo =
  username :: string
  password :: string
  passwordSet :: bool

record URL =
  Scheme :: string
  Opaque :: string
  User :: "Userinfo option"
  Host :: string
  Path :: string
  RawPath :: string
  OmitHost :: bool
  ForceQuery :: bool
  RawQuery :: string
  Fragment :: string
  RawFragment :: string

text \<open>The zero value \<open>new(URL)\<close>.\<close>

definition newURL :: URL where
  "newURL = \<lparr>Scheme = [], Opaque = [], User = None, Host = [], Path = [], RawPath = [],
              OmitHost = False, ForceQuery = False, RawQuery = [], Fragment = [],
              RawFragment = []\<rparr>"

datatype encoding =
  encodePath | encodePathSegment | encodeHost | encodeZone | encodeUserPassword
  | encodeQueryComponent | encodeFragment

definition ishex :: "char \<Rightarrow> bool" where
  "ishex c = (isDigit c \<or> c \<in> set ''abcdef'' \<or> c \<in> set ''ABCDEF'')"

definition unhex :: "char \<Rightarrow> nat" where
  "unhex c =
     (if isDigit c then of_char c - 48
      else if c \<in> set ''abcdef'' then of_char c - 97 + 10
      else if c \<in> set ''ABCDEF'' then of_char c - 65 + 10
      else 0)"

text \<open>The byte \<open>unhex(a)<<4 | unhex(b)\<close>.\<close>

definition hexByte :: "char \<Rightarrow> char \<Rightarrow> char" where
  "hexByte a b = char_of (unhex a * 16 + unhex b)"

definition upperhex :: "nat \<Rightarrow> char" where
  "upperhex n = ''0123456789ABCDEF'' ! (n mod 16)"

definition shouldEscape :: "char \<Rightarrow> encoding \<Rightarrow> bool" where
  "shouldEscape c mode =
     (if isLower c \<or> isUpper c \<or> isDigit c then False
      else if (mode = encodeHost \<or> mode = encodeZone)
              \<and> c \<in> set (''!$&'' @ [CHR 0x27] @ ''()*+,;=:[]<>'' @ [CHR 0x22]) then False
      else if c \<in> set ''-_.~'' then False
      else if c \<in> set ''$&+,/:;=?@'' \<and> mode = encodePath then c = CHR ''?''
      else if c \<in> set ''$&+,/:;=?@'' \<and> mode = encodePathSegment then c \<in> set ''/;,?''
      else if c \<in> set ''$&+,/:;=?@'' \<and> mode = encodeUserPassword then c \<in> set ''@/?:''
      else if c \<in> set ''$&+,/:;=?@'' \<and> mode = encodeQueryComponent then True
      else if c \<in> set ''$&+,/:;=?@'' \<and> mode = encodeFragment then False
      else if mode = encodeFragment \<and> c \<in> set ''!()*'' then False
      else True)"

text \<open>
  \<open>unescape\<close> checks the whole string first and decodes it afterwards; one pass that
  fails at the first malformed escape returns the same.
\<close>

fun unescape :: "string \<Rightarrow> encoding \<Rightarrow> string option" where
  "unescape [] mode = Some []"
| "unescape (c # cs) mode =
     (if c = CHR ''%'' then
        (case cs of
           a # b # rest \<Rightarrow>
             if \<not> ishex a \<or> \<not> ishex b then None
             else if mode = encodeHost \<and> unhex a < 8 \<and> [a, b] \<noteq> ''25'' then None
             else if mode = encodeZone \<and> [a, b] \<noteq> ''25'' \<and> hexByte a b \<noteq> CHR '' ''
                     \<and> shouldEscape (hexByte a b) encodeHost then None
             else map_option (\<lambda>t. hexByte a b # t) (unescape rest mode)
         | _ \<Rightarrow> None)
      else if c = CHR ''+'' then
        map_option (\<lambda>t. (if mode = encodeQueryComponent then CHR '' '' else CHR ''+'') # t)
          (unescape cs mode)
      else if (mode = encodeHost \<or> mode = encodeZone) \<and> \<not> digit7 c
              \<and> shouldEscape c encodeHost then None
      else map_option (\<lambda>t. c # t) (unescape cs mode))"

definition escapeByte :: "char \<Rightarrow> encoding \<Rightarrow> string" where
  "escapeByte c mode =
     (if shouldEscape c mode then
        (if c = CHR '' '' \<and> mode = encodeQueryComponent then ''+''
         else [CHR ''%'', upperhex (of_char c div 16), upperhex (of_char c mod 16)])
      else [c])"

definition escape :: "string \<Rightarrow> encoding \<Rightarrow> string" where
  "escape s mode = concat (map (\<lambda>c. escapeByte c mode) s)"

definition validEncoded :: "string \<Rightarrow> encoding \<Rightarrow> bool" where
  "validEncoded s mode =
     list_all (\<lambda>c. c \<in> set (''!$&'' @ [CHR 0x27] @ ''()*+,;=:@[]%'') \<or> \<not> shouldEscape c mode) s"

definition stringContainsCTLByte :: "string \<Rightarrow> bool" where
  "stringContainsCTLByte s = list_ex (\<lambda>b. (of_char b :: nat) < 32 \<or> b = CHR 0x7F) s"

text \<open>
  \<open>getScheme\<close>: \<open>pre\<close> holds the bytes before index \<open>i\<close>.  \<open>None\<close> is the error
  "missing protocol scheme".
\<close>

fun getSchemeLoop :: "string \<Rightarrow> string \<Rightarrow> string \<Rightarrow> (string \<times> string) option" where
  "getSchemeLoop rawURL pre [] = Some ([], rawURL)"
| "getSchemeLoop rawURL pre (c # cs) =
     (if isLower c \<or> isUpper c then getSchemeLoop rawURL (pre @ [c]) cs
      else if isDigit c \<or> c \<in> set ''+-.'' then
        (if pre = [] then Some ([], rawURL) else getSchemeLoop rawURL (pre @ [c]) cs)
      else if c = CHR '':'' then (if pre = [] then None else Some (pre, cs))
      else Some ([], rawURL))"

definition getScheme :: "string \<Rightarrow> (string \<times> string) option" where
  "getScheme rawURL = getSchemeLoop rawURL [] rawURL"

definition validOptionalPort :: "string \<Rightarrow> bool" where
  "validOptionalPort port =
     (case port of [] \<Rightarrow> True | c # ds \<Rightarrow> c = CHR '':'' \<and> list_all isDigit ds)"

definition validUserinfo :: "string \<Rightarrow> bool" where
  "validUserinfo s =
     list_all (\<lambda>r. isUpper r \<or> isLower r \<or> isDigit r
                 \<or> r \<in> set (''-._:~!$&'' @ [CHR 0x27] @ ''()*+,;=%@'')) s"

definition parseHost :: "string \<Rightarrow> string option" where
  "parseHost host =
     (if HasPrefix host ''['' then
        (case LastIndex host '']'' of
           None \<Rightarrow> None
         | Some i \<Rightarrow>
             if \<not> validOptionalPort (drop (i + 1) host) then None
             else (case Index (take i host) ''%25'' of
                     Some zone \<Rightarrow>
                       (case unescape (take zone host) encodeHost of
                          None \<Rightarrow> None
                        | Some host1 \<Rightarrow>
                            (case unescape (drop zone (take i host)) encodeZone of
                               None \<Rightarrow> None
                             | Some host2 \<Rightarrow>
                                 (case unescape (drop i host) encodeHost of
                                    None \<Rightarrow> None
                                  | Some host3 \<Rightarrow> Some (host1 @ host2 @ host3))))
                   | None \<Rightarrow> unescape host encodeHost))
      else
        (case LastIndex host '':'' of
           Some i \<Rightarrow>
             if \<not> validOptionalPort (drop i host) then None else unescape host encodeHost
         | None \<Rightarrow> unescape host encodeHost))"

definition parseAuthority :: "string \<Rightarrow> (Userinfo option \<times> string) option" where
  "parseAuthority authority =
     (case LastIndex authority ''@'' of
        None \<Rightarrow> map_option (\<lambda>h. (None, h)) (parseHost authority)
      | Some i \<Rightarrow>
          (case parseHost (drop (i + 1) authority) of
             None \<Rightarrow> None
           | Some h \<Rightarrow>
               let userinfo = take i authority in
               if \<not> validUserinfo userinfo then None
               else if \<not> Contains userinfo '':'' then
                 (case unescape userinfo encodeUserPassword of
                    None \<Rightarrow> None
                  | Some u \<Rightarrow>
                      Some (Some \<lparr>username = u, password = [], passwordSet = False\<rparr>, h))
               else
                 (case Cut userinfo '':'' of
                    (un, pw, _) \<Rightarrow>
                      (case unescape un encodeUserPassword of
                         None \<Rightarrow> None
                       | Some un' \<Rightarrow>
                           (case unescape pw encodeUserPassword of
                              None \<Rightarrow> None
                            | Some pw' \<Rightarrow>
                                Some (Some \<lparr>username = un', password = pw',
                                            passwordSet = True\<rparr>, h))))))"

definition setPath :: "URL \<Rightarrow> string \<Rightarrow> URL option" where
  "setPath u p =
     (case unescape p encodePath of
        None \<Rightarrow> None
      | Some path \<Rightarrow>
          Some (u\<lparr>Path := path, RawPath := (if p = escape path encodePath then [] else p)\<rparr>))"

definition setFragment :: "URL \<Rightarrow> string \<Rightarrow> URL option" where
  "setFragment u f =
     (case unescape f encodeFragment of
        None \<Rightarrow> None
      | Some frag \<Rightarrow>
          Some (u\<lparr>Fragment := frag,
                  RawFragment := (if f = escape frag encodeFragment then [] else f)\<rparr>))"

text \<open>
  \<open>parse(rawURL, viaRequest)\<close> with \<open>viaRequest = false\<close>, as \<open>url.Parse\<close> calls it.
  \<open>parseRest\<close> is its second half, from the authority on.
\<close>

definition parseRest :: "URL \<Rightarrow> string \<Rightarrow> URL option" where
  "parseRest u rest =
     (if (Scheme u \<noteq> [] \<or> \<not> HasPrefix rest ''///'') \<and> HasPrefix rest ''//'' then
        (let authority0 = drop 2 rest;
             authority = (case Index authority0 ''/'' of
                            None \<Rightarrow> authority0 | Some i \<Rightarrow> take i authority0);
             rest' = (case Index authority0 ''/'' of
                        None \<Rightarrow> [] | Some i \<Rightarrow> drop i authority0)
         in case parseAuthority authority of
              None \<Rightarrow> None
            | Some (usr, h) \<Rightarrow> setPath (u\<lparr>User := usr, Host := h\<rparr>) rest')
      else if Scheme u \<noteq> [] \<and> HasPrefix rest ''/'' then
        setPath (u\<lparr>OmitHost := True\<rparr>) rest
      else setPath u rest)"

definition parse :: "string \<Rightarrow> URL option" where
  "parse rawURL =
     (if stringContainsCTLByte rawURL then None
      else if rawURL = ''*'' then Some (newURL\<lparr>Path := ''*''\<rparr>)
      else
        (case getScheme rawURL of
           None \<Rightarrow> None
         | Some (scheme, rest0) \<Rightarrow>
             let u0 = newURL\<lparr>Scheme := ToLower scheme\<rparr>;
                 force = (HasSuffix rest0 ''?'' \<and> CountByte rest0 (CHR ''?'') = 1);
                 rest = (if force then butlast rest0 else fst (Cut rest0 ''?''));
                 u = (if force then u0\<lparr>ForceQuery := True\<rparr>
                      else u0\<lparr>RawQuery := fst (snd (Cut rest0 ''?''))\<rparr>)
             in if \<not> HasPrefix rest ''/'' \<and> Scheme u \<noteq> [] then Some (u\<lparr>Opaque := rest\<rparr>)
                else if \<not> HasPrefix rest ''/'' \<and> Contains (fst (Cut rest ''/'')) '':''
                  then None
                else parseRest u rest))"

definition url_Parse :: "string \<Rightarrow> URL option" where
  "url_Parse rawURL =
     (case Cut rawURL ''#'' of
        (u, frag, _) \<Rightarrow>
          (case parse u of
             None \<Rightarrow> None
           | Some url \<Rightarrow> if frag = [] then Some url else setFragment url frag))"

definition EscapedPath :: "URL \<Rightarrow> string" where
  "EscapedPath u =
     (if RawPath u \<noteq> [] \<and> validEncoded (RawPath u) encodePath
         \<and> unescape (RawPath u) encodePath = Some (Path u) then RawPath u
      else if Path u = ''*'' then ''*''
      else escape (Path u) encodePath)"

definition EscapedFragment :: "URL \<Rightarrow> string" where
  "EscapedFragment u =
     (if RawFragment u \<noteq> [] \<and> validEncoded (RawFragment u) encodeFragment
         \<and> unescape (RawFragment u) encodeFragment = Some (Fragment u) then RawFragment u
      else escape (Fragment u) encodeFragment)"

definition Userinfo_String :: "Userinfo \<Rightarrow> string" where
  "Userinfo_String ui =
     escape (username ui) encodeUserPassword
     @ (if passwordSet ui then '':'' @ escape (password ui) encodeUserPassword else [])"

text \<open>\<open>URL.String\<close>: the pieces are appended to the buffer in this order.\<close>

definition String_authority :: "URL \<Rightarrow> string" where
  "String_authority u =
     (if Scheme u \<noteq> [] \<or> Host u \<noteq> [] \<or> User u \<noteq> None then
        (if OmitHost u \<and> Host u = [] \<and> User u = None then []
         else
           (if Host u \<noteq> [] \<or> Path u \<noteq> [] \<or> User u \<noteq> None then ''//'' else [])
           @ (case User u of None \<Rightarrow> [] | Some ui \<Rightarrow> Userinfo_String ui @ ''@'')
           @ (if Host u \<noteq> [] then escape (Host u) encodeHost else []))
      else [])"

definition String_hier :: "URL \<Rightarrow> string \<Rightarrow> string" where
  "String_hier u buf =
     (let buf1 = buf @ String_authority u;
          path = EscapedPath u;
          buf2 = (if path \<noteq> [] \<and> hd path \<noteq> CHR ''/'' \<and> Host u \<noteq> [] then buf1 @ ''/''
                  else buf1);
          buf3 = (if buf2 = [] \<and> Contains (fst (Cut path ''/'')) '':'' then buf2 @ ''./''
                  else buf2)
      in buf3 @ path)"

definition String :: "URL \<Rightarrow> string" where
  "String u =
     (let buf0 = (if Scheme u \<noteq> [] then Scheme u @ '':'' else []);
          buf1 = (if Opaque u \<noteq> [] then buf0 @ Opaque u else String_hier u buf0);
          buf2 = (if ForceQuery u \<or> RawQuery u \<noteq> [] then buf1 @ ''?'' @ RawQuery u
                  else buf1)
      in if Fragment u \<noteq> [] then buf2 @ ''#'' @ EscapedFragment u else buf2)"

definition IsAbs :: "URL \<Rightarrow> bool" where
  "IsAbs u = (Scheme u \<noteq> [])"

definition splitHostPort :: "string \<Rightarrow> string \<times> string" where
  "splitHostPort hostPort =
     (let hp = (case LastIndex hostPort '':'' of
                  Some colon \<Rightarrow>
                    if validOptionalPort (drop colon hostPort)
                    then (take colon hostPort, drop (colon + 1) hostPort)
                    else (hostPort, [])
                | None \<Rightarrow> (hostPort, []));
          host = fst hp
      in if HasPrefix host ''['' \<and> HasSuffix host '']''
         then (take (length host - 2) (drop 1 host), snd hp)
         else hp)"

definition Hostname :: "URL \<Rightarrow> string" where
  "Hostname u = fst (splitHostPort (Host u))"

text \<open>
  \<open>resolvePath\<close> walks the elements of \<open>full\<close> between slashes; the state of its
  loop is the buffer \<open>dst\<close> and the flag \<open>first\<close>.
\<close>

definition resolvePath_step :: "string \<times> bool \<Rightarrow> string \<Rightarrow> string \<times> bool" where
  "resolvePath_step st elem =
     (case st of (dst, first) \<Rightarrow>
        if elem = ''.'' then (dst, False)
        else if elem = ''..'' then
          (let str = drop 1 dst in
           case LastIndex str ''/'' of
             None \<Rightarrow> (''/'', True)
           | Some index \<Rightarrow> (''/'' @ take index str, first))
        else ((if \<not> first then dst @ ''/'' else dst) @ elem, False))"

definition resolvePath :: "string \<Rightarrow> string \<Rightarrow> string" where
  "resolvePath base ref =
     (let full = (if ref = [] then base
                  else if hd ref \<noteq> CHR ''/'' then
                    (case LastIndex base ''/'' of
                       None \<Rightarrow> ref
                     | Some i \<Rightarrow> take (i + 1) base @ ref)
                  else ref)
      in if full = [] then []
         else
           (let elems = SplitByte full (CHR ''/'');
                dst = fst (foldl resolvePath_step (''/'', True) elems);
                dst' = (if last elems = ''.'' \<or> last elems = ''..'' then dst @ ''/'' else dst)
            in if length dst' > 1 \<and> dst' ! 1 = CHR ''/'' then drop 1 dst' else dst'))"

text \<open>\<open>ResolveReference\<close> ignores the error of \<open>setPath\<close>, which then leaves the URL as it is.\<close>

definition setPath_ignore :: "URL \<Rightarrow> string \<Rightarrow> URL" where
  "setPath_ignore u p = (case setPath u p of None \<Rightarrow> u | Some u' \<Rightarrow> u')"

definition ResolveReference :: "URL \<Rightarrow> URL \<Rightarrow> URL" where
  "ResolveReference u ref =
     (let url = (if Scheme ref = [] then ref\<lparr>Scheme := Scheme u\<rparr> else ref) in
      if Scheme ref \<noteq> [] \<or> Host ref \<noteq> [] \<or> User ref \<noteq> None then
        setPath_ignore url (resolvePath (EscapedPath ref) [])
      else if Opaque ref \<noteq> [] then url\<lparr>User := None, Host := [], Path := []\<rparr>
      else
        (let url1 = (if Path ref = [] \<and> \<not> ForceQuery ref \<and> RawQuery ref = [] then
                       (let url0 = url\<lparr>RawQuery := RawQuery u\<rparr> in
                        if Fragment ref = [] then
                          url0\<lparr>Fragment := Fragment u, RawFragment := RawFragment u\<rparr>
                        else url0)
                     else url)
         in if Path ref = [] \<and> Opaque u \<noteq> [] then
              url1\<lparr>Opaque := Opaque u, User := None, Host := [], Path := []\<rparr>
            else
              setPath_ignore (url1\<lparr>Host := Host u, User := User u\<rparr>)
                (resolvePath (EscapedPath u) (EscapedPath ref))))"

section \<open>normalize.go\<close>

text \<open>
  The errors of the repository: the three of \<open>NormalizeURL\<close>, the two that \<open>Crawl\<close>
  returns of its own, an error of a collaborator (fetcher, parser), and the panic of
  the runtime for a send on a closed channel.
\<close>

datatype error = InvalidEmptyURL | InvalidURL string | InvalidURLParse string
  | AlreadyRunning | ContextCanceled | CollaboratorError string | PanicSendOnClosed

definition NormalizeURL :: "string \<Rightarrow> error + URL" where
  "NormalizeURL raw =
     (let v = TrimSpace raw in
      if v = [] then Inl InvalidEmptyURL
      else if \<not> HasPrefix v ''http'' \<and> Contains v ''://'' then Inl (InvalidURL v)
      else
        (let v1 = (if \<not> HasPrefix v ''http'' then ''https://'' @ v else v);
             v2 = (if HasPrefix v1 ''http://'' then ''https://'' @ drop 7 v1 else v1)
         in case url_Parse v2 of
              None \<Rightarrow> Inl (InvalidURLParse v2)
            | Some u \<Rightarrow>
                (let u1 = u\<lparr>ForceQuery := False, RawQuery := [], Fragment := []\<rparr>
                 in Inr (if Path u1 = ''/'' then u1\<lparr>Path := []\<rparr> else u1))))"

section \<open>Hosts of two URLs\<close>

text \<open>A \<open>*url.URL\<close> may be nil: \<open>None\<close>.\<close>

definition AreSameHost :: "URL option \<Rightarrow> URL option \<Rightarrow> bool" where
  "AreSameHost url1 url2 =
     (case (url1, url2) of
        (Some u1, Some u2) \<Rightarrow> Host u1 = Host u2
      | _ \<Rightarrow> False)"

definition AreRelatedHosts :: "URL option \<Rightarrow> URL option \<Rightarrow> bool" where
  "AreRelatedHosts url1 url2 =
     (case (url1, url2) of
        (Some u1, Some u2) \<Rightarrow>
          (let parts1 = SplitByte (Host u1) (CHR ''.'');
               parts2 = SplitByte (Host u2) (CHR ''.'')
           in if length parts1 < 2 \<or> length parts2 < 2 then False
              else Join (drop (length parts1 - 2) parts1) ''.''
                   = Join (drop (length parts2 - 2) parts2) ''.'')
      | _ \<Rightarrow> False)"

section \<open>The crawler: follow policy\<close>

text \<open>\<open>FollowBehavior\<close> is a string type with four named constants.\<close>

type_synonym FollowBehavior = string

definition FollowAny :: FollowBehavior where "FollowAny = ''any''"
definition FollowSameDomain :: FollowBehavior where "FollowSameDomain = ''same_domain''"
definition FollowRelatedSubdomains :: FollowBehavior where
  "FollowRelatedSubdomains = ''related_subdomains''"
definition FollowNone :: FollowBehavior where "FollowNone = ''none''"

fun filterURLs_loop :: "FollowBehavior \<Rightarrow> URL \<Rightarrow> string list \<Rightarrow> string list \<Rightarrow> string list"
  where
  "filterURLs_loop fb pageURL [] filtered = filtered"
| "filterURLs_loop fb pageURL (rawURL # links) filtered =
     (case NormalizeURL rawURL of
        Inl err \<Rightarrow> filterURLs_loop fb pageURL links filtered
      | Inr u \<Rightarrow>
          if fb = FollowAny then filterURLs_loop fb pageURL links (filtered @ [rawURL])
          else if fb = FollowSameDomain then
            (if AreSameHost (Some u) (Some pageURL)
             then filterURLs_loop fb pageURL links (filtered @ [rawURL])
             else filterURLs_loop fb pageURL links filtered)
          else if fb = FollowRelatedSubdomains then
            (if AreRelatedHosts (Some u) (Some pageURL)
             then filterURLs_loop fb pageURL links (filtered @ [rawURL])
             else filterURLs_loop fb pageURL links filtered)
          else filterURLs_loop fb pageURL links filtered)"

definition filterURLs :: "FollowBehavior \<Rightarrow> URL \<Rightarrow> string list \<Rightarrow> string list" where
  "filterURLs fb pageURL links =
     (if fb = FollowNone then [] else filterURLs_loop fb pageURL links [])"

section \<open>The crawler: link resolution\<close>

definition ResolveLink :: "string \<Rightarrow> string \<Rightarrow> string \<times> bool" where
  "ResolveLink domain value =
     (case url_Parse value of
        None \<Rightarrow> ([], False)
      | Some parsed \<Rightarrow>
          (let parsedURL = parsed\<lparr>Fragment := []\<rparr> in
           if IsAbs parsedURL then
             (if Scheme parsedURL \<noteq> ''http'' \<and> Scheme parsedURL \<noteq> ''https'' then ([], False)
              else (case NormalizeURL (String parsedURL) of
                      Inl err \<Rightarrow> ([], False)
                    | Inr normalizedURL \<Rightarrow> (String normalizedURL, True)))
           else
             (let baseDomain =
                    (if \<not> HasPrefix domain ''http://'' \<and> \<not> HasPrefix domain ''https://''
                     then ''https://'' @ domain else domain)
              in case url_Parse baseDomain of
                   None \<Rightarrow> ([], False)
                 | Some baseURL \<Rightarrow>
                     (case NormalizeURL (String (ResolveReference baseURL parsedURL)) of
                        Inl err \<Rightarrow> ([], False)
                      | Inr normalizedURL \<Rightarrow> (String normalizedURL, True)))))"

text \<open>
  The follow policy in the words of the specification: whether a candidate link is
  admitted is a function of the behaviour, the host of the page and the host of the
  normalized candidate.  The labels of a host are its pieces between dots.
\<close>

definition hostLabels :: "string \<Rightarrow> string list" where
  "hostLabels h = SplitByte h (CHR ''.'')"

definition lastTwoLabels :: "string \<Rightarrow> string list" where
  "lastTwoLabels h = drop (length (hostLabels h) - 2) (hostLabels h)"

definition admitsHost :: "FollowBehavior \<Rightarrow> string \<Rightarrow> string \<Rightarrow> bool" where
  "admitsHost fb pageHost candHost =
     (if fb = FollowNone then False
      else if fb = FollowAny then True
      else if fb = FollowSameDomain then candHost = pageHost
      else if fb = FollowRelatedSubdomains then
        2 \<le> length (hostLabels candHost) \<and> 2 \<le> length (hostLabels pageHost)
        \<and> lastTwoLabels candHost = lastTwoLabels pageHost
      else False)"

definition admits :: "FollowBehavior \<Rightarrow> URL \<Rightarrow> string \<Rightarrow> bool" where
  "admits fb pageURL rawURL =
     (case NormalizeURL rawURL of
        Inl err \<Rightarrow> False
      | Inr u \<Rightarrow> admitsHost fb (Host pageURL) (Host u))"

section \<open>The crawler: its data and its collaborators\<close>

text \<open>
  \<open>fetch.Request\<close> and \<open>fetch.Response\<close> with the fields the crawler reads or writes;
  the other fields of the two structs (tags, timeouts, screenshot, metadata, storage
  state, time stamp) keep their zero value throughout and are left out.  A nil slice
  or map is the empty list.
\<close>

record Link =
  Link_URL :: string
  Link_Text :: string

record Request =
  Request_URL :: string
  OnlyMainContent :: bool
  Prettify :: bool
  Request_Fetcher :: string

record Response =
  Response_URL :: string
  StatusCode :: int
  Headers :: "(string \<times> string) list"
  HTML :: string
  Markdown :: string
  Links :: "Link list"

text \<open>A \<open>Parser\<close> returns the parsed object (\<open>any\<close>, here a string; \<open>None\<close> is nil) and
  an error or nil.\<close>

type_synonym Parser = "Response \<Rightarrow> string option \<times> error option"

text \<open>
  Modelled from the spec: \<open>CrawlerStats\<close>, whose declaration is not among the sources:
  "atomic counters for processed/succeeded/failed", monotonically increasing.
\<close>

record CrawlerStats =
  processed :: int
  succeeded :: int
  failed :: int

text \<open>
  Modelled from the spec: the cache, an interface outside the sources:
  \<open>get(key) -> bytes | NotFound\<close>, \<open>set(key, bytes)\<close>.  Its contents are a map from
  keys to bytes; \<open>Get\<close> succeeds exactly on the keys of the map.  A crawler without a
  cache has \<open>None\<close>.
\<close>

type_synonym Cache = "string \<rightharpoonup> string"

text \<open>
  The \<open>Crawler\<close> struct.  \<open>processedURLs\<close> is the \<open>sync.Map\<close> (only its keys
  matter), \<open>queue\<close> the buffer of the channel, \<open>queueCap\<close> its capacity and
  \<open>queueClosed\<close> whether it was closed.  The logger, the request delay and the
  progress reporter change none of this state and are left out.
\<close>

record Crawler =
  processedURLs :: "string set"
  queue :: "string list"
  queueCap :: nat
  queueClosed :: bool
  maxURLs :: int
  workers :: nat
  cache :: "Cache option"
  fetcher :: "Request \<Rightarrow> error + Response"
  fetcherName :: string
  parsers :: "string \<rightharpoonup> Parser"
  defaultParser :: "Parser option"
  followBehavior :: FollowBehavior
  activeWorkers :: int
  stats :: CrawlerStats
  running :: bool

record Options =
  MaxURLs :: int
  Workers :: int
  Cache :: "Cache option"
  Fetcher :: "Request \<Rightarrow> error + Response"
  FetcherName :: string
  Parsers :: "string \<rightharpoonup> Parser"
  DefaultParser :: "Parser option"
  FollowBehavior :: FollowBehavior
  QueueSize :: int

definition New :: "Options \<Rightarrow> Crawler" where
  "New opts =
     \<lparr>processedURLs = {}, queue = [],
      queueCap = (if QueueSize opts \<le> 0 then 10000 else nat (QueueSize opts)),
      queueClosed = False, maxURLs = MaxURLs opts, workers = nat (Workers opts),
      cache = Cache opts, fetcher = Fetcher opts, fetcherName = FetcherName opts,
      parsers = Parsers opts, defaultParser = DefaultParser opts,
      followBehavior = FollowBehavior opts, activeWorkers = 0,
      stats = \<lparr>processed = 0, succeeded = 0, failed = 0\<rparr>, running = False\<rparr>"

text \<open>What a page's processing does to its collaborators, in order.\<close>

datatype event =
  EvCacheGet string
  | EvFetch Request
  | EvCacheSet string string
  | EvParse Response
  | EvCallback Request "string option" "error option"
  | EvWarn string

definition IncrementProcessed :: "Crawler \<Rightarrow> Crawler" where
  "IncrementProcessed c = c\<lparr>stats := (stats c)\<lparr>processed := processed (stats c) + 1\<rparr>\<rparr>"

definition IncrementSucceeded :: "Crawler \<Rightarrow> Crawler" where
  "IncrementSucceeded c = c\<lparr>stats := (stats c)\<lparr>succeeded := succeeded (stats c) + 1\<rparr>\<rparr>"

definition IncrementFailed :: "Crawler \<Rightarrow> Crawler" where
  "IncrementFailed c = c\<lparr>stats := (stats c)\<lparr>failed := failed (stats c) + 1\<rparr>\<rparr>"

definition GetProcessed :: "Crawler \<Rightarrow> int" where
  "GetProcessed c = processed (stats c)"

definition getFetcherName :: "Crawler \<Rightarrow> string" where
  "getFetcherName c = (if fetcherName c \<noteq> [] then fetcherName c else ''http'')"

definition getParser :: "Crawler \<Rightarrow> string \<Rightarrow> Parser option" where
  "getParser c domain =
     (case parsers c domain of
        Some parser \<Rightarrow> Some parser
      | None \<Rightarrow> defaultParser c)"

text \<open>\<open>sync.Map.LoadOrStore(key, true)\<close>: the new key set, and whether the key was there.\<close>

definition LoadOrStore :: "string set \<Rightarrow> string \<Rightarrow> string set \<times> bool" where
  "LoadOrStore m key = (insert key m, key \<in> m)"

text \<open>
  \<open>extractURLs\<close>: the links that resolve, without duplicates, sorted as \<open>sort.Strings\<close>
  sorts (bytewise).
\<close>

definition extractURLs :: "Link list \<Rightarrow> string \<Rightarrow> string list" where
  "extractURLs links domain =
     sort (remdups (map fst (filter snd (map (\<lambda>link. ResolveLink domain (Link_URL link)) links))))"

text \<open>
  The loop of \<open>queueDiscoveredURLs\<close>.  The result \<open>None\<close> in place of \<open>next\<close> is the
  \<open>return\<close> inside the loop, which leaves the function at once.
\<close>

fun queueDiscoveredURLs_loop ::
  "Crawler \<Rightarrow> string list \<Rightarrow> string list \<Rightarrow> Crawler \<times> string list option" where
  "queueDiscoveredURLs_loop c [] next = (c, Some next)"
| "queueDiscoveredURLs_loop c (rawURL # urls) next =
     (if GetProcessed c \<ge> maxURLs c then (c, None)
      else
        (case NormalizeURL rawURL of
           Inl err \<Rightarrow> queueDiscoveredURLs_loop c urls next
         | Inr u \<Rightarrow>
             (case LoadOrStore (processedURLs c) (String u) of
                (m, exists) \<Rightarrow>
                  if \<not> exists
                  then queueDiscoveredURLs_loop (c\<lparr>processedURLs := m\<rparr>) urls
                         (next @ [String u])
                  else queueDiscoveredURLs_loop (c\<lparr>processedURLs := m\<rparr>) urls next)))"

text \<open>
  The \<open>select\<close> that ends \<open>queueDiscoveredURLs\<close>.  It stands after the loop, not in a
  loop over \<open>next\<close>, and it sends \<open>urlStr\<close>, a name the function does not declare: the
  model takes \<open>urlStr\<close> as a parameter.  The send can proceed when the buffer has
  room, and also when the channel is closed, where it panics.  \<open>ctxDone\<close> says
  whether the context is cancelled; when both cases can proceed the runtime picks
  one, \<open>pickDone\<close> says which.  With neither, \<open>default\<close> runs.
\<close>

definition queueDiscoveredURLs_select ::
  "Crawler \<Rightarrow> bool \<Rightarrow> bool \<Rightarrow> string \<Rightarrow> error + Crawler" where
  "queueDiscoveredURLs_select c ctxDone pickDone urlStr =
     (let sendReady = (queueClosed c \<or> length (queue c) < queueCap c) in
      if sendReady \<and> \<not> (ctxDone \<and> pickDone) then
        (if queueClosed c then Inl PanicSendOnClosed
         else Inr (c\<lparr>queue := queue c @ [urlStr]\<rparr>))
      else Inr c)"

definition queueDiscoveredURLs ::
  "Crawler \<Rightarrow> bool \<Rightarrow> bool \<Rightarrow> string \<Rightarrow> string list \<Rightarrow> error + Crawler" where
  "queueDiscoveredURLs c ctxDone pickDone urlStr urls =
     (case queueDiscoveredURLs_loop c urls [] of
        (c', None) \<Rightarrow> Inr c'
      | (c', Some next) \<Rightarrow> queueDiscoveredURLs_select c' ctxDone pickDone urlStr)"

text \<open>
  The pieces of \<open>processURL\<close>: the request, the lookup in the cache, the fetch when
  the cache has nothing, and the parser chosen for the domain.
\<close>

definition newRequest :: "Crawler \<Rightarrow> string \<Rightarrow> Request" where
  "newRequest c rawURL =
     \<lparr>Request_URL = rawURL, OnlyMainContent = False, Prettify = False,
      Request_Fetcher = getFetcherName c\<rparr>"

definition cacheLookup :: "Crawler \<Rightarrow> string \<Rightarrow> Response option \<times> event list" where
  "cacheLookup c rawURL =
     (case cache c of
        None \<Rightarrow> (None, [])
      | Some data \<Rightarrow>
          (case data rawURL of
             None \<Rightarrow> (None, [EvCacheGet rawURL])
           | Some cachedHTML \<Rightarrow>
               (Some \<lparr>Response_URL = rawURL, StatusCode = 0, Headers = [],
                      HTML = cachedHTML, Markdown = [], Links = []\<rparr>,
                [EvCacheGet rawURL])))"

definition fetchPage ::
  "Crawler \<Rightarrow> Request \<Rightarrow> string \<Rightarrow> (error + Response \<times> Crawler) \<times> event list" where
  "fetchPage c req rawURL =
     (case cacheLookup c rawURL of
        (Some response, ev) \<Rightarrow> (Inr (response, c), ev)
      | (None, ev) \<Rightarrow>
          (case fetcher c req of
             Inl err \<Rightarrow> (Inl err, ev @ [EvFetch req])
           | Inr response \<Rightarrow>
               (case cache c of
                  Some data \<Rightarrow>
                    if HTML response \<noteq> []
                    then (Inr (response, c\<lparr>cache := Some (data(rawURL \<mapsto> HTML response))\<rparr>),
                          ev @ [EvFetch req, EvCacheSet rawURL (HTML response)])
                    else (Inr (response, c), ev @ [EvFetch req])
                | None \<Rightarrow> (Inr (response, c), ev @ [EvFetch req]))))"

definition parsePage ::
  "Crawler \<Rightarrow> string \<Rightarrow> Response \<Rightarrow> (string option \<times> error option) \<times> event list" where
  "parsePage c domain response =
     (case getParser c domain of
        None \<Rightarrow> ((None, None), [])
      | Some parser \<Rightarrow> (parser response, [EvParse response]))"

text \<open>
  \<open>processURL\<close>, run without interference from other workers.  It returns the
  crawler afterwards (or the panic) and what it did to the collaborators.
\<close>

definition processURL ::
  "Crawler \<Rightarrow> bool \<Rightarrow> bool \<Rightarrow> string \<Rightarrow> string \<Rightarrow> (error + Crawler) \<times> event list" where
  "processURL c0 ctxDone pickDone urlStr rawURL =
     (let c = IncrementProcessed c0 in
      case url_Parse rawURL of
        None \<Rightarrow> (Inr c, [EvWarn ''invalid url''])
      | Some parsedURL \<Rightarrow>
          (let domain = Hostname parsedURL;
               req = newRequest c rawURL
           in case fetchPage c req rawURL of
                (Inl err, ev) \<Rightarrow>
                  (Inr (IncrementFailed c), ev @ [EvCallback req None (Some err)])
              | (Inr (response, c1), ev) \<Rightarrow>
                  (case parsePage c1 domain response of
                     ((parsed, parseErr), evp) \<Rightarrow>
                       (let discoveredURLs = extractURLs (Links response) domain;
                            ev' = ev @ evp @ [EvCallback req parsed parseErr];
                            filteredURLs =
                              filterURLs (followBehavior c1) parsedURL discoveredURLs
                        in case queueDiscoveredURLs c1 ctxDone pickDone urlStr filteredURLs of
                             Inl panic \<Rightarrow> (Inl panic, ev')
                           | Inr c2 \<Rightarrow> (Inr (IncrementSucceeded c2), ev')))))"

text \<open>
  The crawler of the repository's tests: \<open>New\<close> with ten URLs at most, one worker, the
  default queue size and a mock fetcher that has no response configured.
\<close>

definition testFetcher :: "Request \<Rightarrow> error + Response" where
  "testFetcher req = Inl (CollaboratorError ''no mock response configured'')"

definition testCrawler :: "Cache option \<Rightarrow> Crawler" where
  "testCrawler ch = New \<lparr>MaxURLs = 10, Workers = 1, Cache = ch, Fetcher = testFetcher,
     FetcherName = [], Parsers = Map.empty, DefaultParser = None,
     FollowBehavior = FollowAny, QueueSize = 0\<rparr>"

section \<open>The crawler: a run, with its goroutines interleaved\<close>

text \<open>
  A run of \<open>Crawl\<close> is the goroutine that called it, the workers it starts, the idle
  monitor and the caller's context.  Each goroutine is a program counter with its
  local variables; a step is one operation of one goroutine on the shared state
  (the \<open>sync.Map\<close>, the channel, an atomic counter, the context), together with the
  local computation that leads to the next such operation.

  The goroutine of \<open>Crawl\<close>: before the check of \<open>running\<close>; in the loop of
  \<open>enqueue\<close> with the URLs left and the count \<open>queued\<close>; blocked in the \<open>select\<close>
  that sends one value; in \<open>wg.Wait()\<close>; at a \<open>return\<close> with its value, the deferred
  calls still to run (\<open>close(c.queue)\<close> first, then \<open>running = false; cancel()\<close>);
  returned.
\<close>

datatype mstate =
  MStart "string list"
  | MEnqueue "string list" nat
  | MSend string "string list" nat
  | MWait
  | MReturning "error option"
  | MClosed "error option"
  | MReturned "error option"

text \<open>
  A worker: at the \<open>select\<close> of its loop; holding a received URL before the check of
  the limit, before \<open>incrementActiveWorkers\<close>, before \<open>IncrementProcessed\<close>, before
  the page is fetched and the callback called; before \<open>IncrementFailed\<close>; in the loop
  of \<open>queueDiscoveredURLs\<close> with the links left and \<open>next\<close> (at its \<open>select\<close> when no
  link is left); before the \<open>LoadOrStore\<close> of a key; before \<open>IncrementSucceeded\<close>;
  before \<open>decrementActiveWorkers\<close>; gone.
\<close>

datatype wstate =
  WIdle
  | WGot string
  | WBegin string
  | WActive string
  | WCounted string
  | WFailed
  | WQueue "string list" "string list"
  | WStore string "string list" "string list"
  | WSucceed
  | WLeave
  | WExited

text \<open>
  What a step is, for the properties that speak of it: a \<open>LoadOrStore\<close> that stored
  its key, a send of a string on the queue, the \<open>default\<close> branch taken on a full
  queue with the list \<open>next\<close> in hand, a call of the callback for a URL, a
  cancellation, or another step of \<open>Crawl\<close> or of a worker.
\<close>

datatype label =
  LMain
  | LCancel
  | LAdmit string
  | LSend string
  | LDrop nat "string list"
  | LCallback nat string
  | LWorker nat

text \<open>
  The state of a run.  \<open>callbacks\<close> and \<open>pushed\<close> are histories, written and never
  read: the calls of the callback and the strings sent on the queue, in order.
\<close>

record sys =
  crawler :: Crawler
  cancelled :: bool
  main :: mstate
  pool :: "wstate list"
  callbacks :: "(Request \<times> string option \<times> error option) list"
  pushed :: "string list"

definition init :: "Options \<Rightarrow> bool \<Rightarrow> string list \<Rightarrow> sys" where
  "init opts r urls =
     \<lparr>crawler = (New opts)\<lparr>running := r\<rparr>, cancelled = False, main = MStart urls,
      pool = [], callbacks = [], pushed = []\<rparr>"

text \<open>The idle monitor runs from the start of the workers until the context is done.\<close>

fun monitoring :: "mstate \<Rightarrow> bool" where
  "monitoring (MStart urls) = False"
| "monitoring (MReturned r) = False"
| "monitoring m = True"

text \<open>
  The steps.  \<open>ext\<close> says whether the caller may cancel the context it passed.

  The \<open>select\<close> of \<open>queueDiscoveredURLs\<close> stands after the loop and runs once,
  whatever \<open>next\<close> holds, also when it is empty.  It sends \<open>urlStr\<close>, a name the
  function does not declare and that nothing ties to \<open>next\<close> or to the seen set: in
  the step \<open>w_send\<close> it is any string, as it is a parameter of
  \<open>queueDiscoveredURLs_select\<close>.  With a cancelled context and room in the queue the
  runtime picks one of the two cases; \<open>default\<close> runs when neither can proceed.  A
  send on the closed channel panics and has no step.
\<close>

inductive step :: "bool \<Rightarrow> sys \<Rightarrow> label \<Rightarrow> sys \<Rightarrow> bool" for ext :: bool where
  m_already:
    "main s = MStart urls \<Longrightarrow> running (crawler s)
     \<Longrightarrow> step ext s LMain (s\<lparr>main := MReturned (Some AlreadyRunning)\<rparr>)"
| m_start:
    "main s = MStart urls \<Longrightarrow> \<not> running (crawler s)
     \<Longrightarrow> step ext s LMain
           (s\<lparr>crawler := (crawler s)\<lparr>running := True\<rparr>,
              pool := replicate (workers (crawler s)) WIdle,
              main := MEnqueue urls 0\<rparr>)"
| m_invalid:
    "main s = MEnqueue (rawURL # urls) queued \<Longrightarrow> NormalizeURL rawURL = Inl err
     \<Longrightarrow> step ext s LMain (s\<lparr>main := MReturning (Some err)\<rparr>)"
| m_seen:
    "main s = MEnqueue (rawURL # urls) queued \<Longrightarrow> NormalizeURL rawURL = Inr u
     \<Longrightarrow> LoadOrStore (processedURLs (crawler s)) (String u) = (m, True)
     \<Longrightarrow> step ext s LMain
           (s\<lparr>crawler := (crawler s)\<lparr>processedURLs := m\<rparr>, main := MEnqueue urls queued\<rparr>)"
| m_admit:
    "main s = MEnqueue (rawURL # urls) queued \<Longrightarrow> NormalizeURL rawURL = Inr u
     \<Longrightarrow> LoadOrStore (processedURLs (crawler s)) (String u) = (m, False)
     \<Longrightarrow> step ext s (LAdmit (String u))
           (s\<lparr>crawler := (crawler s)\<lparr>processedURLs := m\<rparr>,
              main := MSend (String u) urls queued\<rparr>)"
| m_send:
    "main s = MSend v urls queued \<Longrightarrow> \<not> queueClosed (crawler s)
     \<Longrightarrow> length (queue (crawler s)) < queueCap (crawler s)
     \<Longrightarrow> step ext s (LSend v)
           (s\<lparr>crawler := (crawler s)\<lparr>queue := queue (crawler s) @ [v]\<rparr>,
              pushed := pushed s @ [v], main := MEnqueue urls (queued + 1)\<rparr>)"
| m_send_done:
    "main s = MSend v urls queued \<Longrightarrow> cancelled s
     \<Longrightarrow> step ext s LMain (s\<lparr>main := MReturning (Some ContextCanceled)\<rparr>)"
| m_none:
    "main s = MEnqueue [] 0 \<Longrightarrow> step ext s LMain (s\<lparr>main := MReturning None\<rparr>)"
| m_wait:
    "main s = MEnqueue [] queued \<Longrightarrow> queued \<noteq> 0
     \<Longrightarrow> step ext s LMain (s\<lparr>main := MWait\<rparr>)"
| m_waited:
    "main s = MWait \<Longrightarrow> list_all (\<lambda>w. w = WExited) (pool s)
     \<Longrightarrow> step ext s LMain (s\<lparr>main := MReturning None\<rparr>)"
| m_close:
    "main s = MReturning r
     \<Longrightarrow> step ext s LMain
           (s\<lparr>crawler := (crawler s)\<lparr>queueClosed := True\<rparr>, main := MClosed r\<rparr>)"
| m_cancel:
    "main s = MClosed r
     \<Longrightarrow> step ext s LMain
           (s\<lparr>crawler := (crawler s)\<lparr>running := False\<rparr>, cancelled := True,
              main := MReturned r\<rparr>)"
| env_cancel:
    "ext \<Longrightarrow> step ext s LCancel (s\<lparr>cancelled := True\<rparr>)"
| idle_cancel:
    "monitoring (main s) \<Longrightarrow> \<not> cancelled s \<Longrightarrow> activeWorkers (crawler s) = 0
     \<Longrightarrow> queue (crawler s) = []
     \<Longrightarrow> step ext s LCancel (s\<lparr>cancelled := True\<rparr>)"
| w_done:
    "i < length (pool s) \<Longrightarrow> pool s ! i = WIdle \<Longrightarrow> cancelled s
     \<Longrightarrow> step ext s (LWorker i) (s\<lparr>pool := (pool s)[i := WExited]\<rparr>)"
| w_recv:
    "i < length (pool s) \<Longrightarrow> pool s ! i = WIdle \<Longrightarrow> queue (crawler s) = v # q
     \<Longrightarrow> step ext s (LWorker i)
           (s\<lparr>crawler := (crawler s)\<lparr>queue := q\<rparr>, pool := (pool s)[i := WGot v]\<rparr>)"
| w_closed:
    "i < length (pool s) \<Longrightarrow> pool s ! i = WIdle \<Longrightarrow> queue (crawler s) = []
     \<Longrightarrow> queueClosed (crawler s)
     \<Longrightarrow> step ext s (LWorker i) (s\<lparr>pool := (pool s)[i := WExited]\<rparr>)"
| w_limit:
    "i < length (pool s) \<Longrightarrow> pool s ! i = WGot v
     \<Longrightarrow> GetProcessed (crawler s) \<ge> maxURLs (crawler s)
     \<Longrightarrow> step ext s (LWorker i) (s\<lparr>pool := (pool s)[i := WExited]\<rparr>)"
| w_begin:
    "i < length (pool s) \<Longrightarrow> pool s ! i = WGot v
     \<Longrightarrow> GetProcessed (crawler s) < maxURLs (crawler s)
     \<Longrightarrow> step ext s (LWorker i) (s\<lparr>pool := (pool s)[i := WBegin v]\<rparr>)"
| w_active:
    "i < length (pool s) \<Longrightarrow> pool s ! i = WBegin v
     \<Longrightarrow> step ext s (LWorker i)
           (s\<lparr>crawler := (crawler s)\<lparr>activeWorkers := activeWorkers (crawler s) + 1\<rparr>,
              pool := (pool s)[i := WActive v]\<rparr>)"
| w_count:
    "i < length (pool s) \<Longrightarrow> pool s ! i = WActive v
     \<Longrightarrow> step ext s (LWorker i)
           (s\<lparr>crawler := IncrementProcessed (crawler s), pool := (pool s)[i := WCounted v]\<rparr>)"
| w_invalid:
    "i < length (pool s) \<Longrightarrow> pool s ! i = WCounted v \<Longrightarrow> url_Parse v = None
     \<Longrightarrow> step ext s (LWorker i) (s\<lparr>pool := (pool s)[i := WLeave]\<rparr>)"
| w_fetch_error:
    "i < length (pool s) \<Longrightarrow> pool s ! i = WCounted v \<Longrightarrow> url_Parse v = Some parsedURL
     \<Longrightarrow> fetchPage (crawler s) (newRequest (crawler s) v) v = (Inl err, ev)
     \<Longrightarrow> step ext s (LCallback i v)
           (s\<lparr>callbacks := callbacks s @ [(newRequest (crawler s) v, None, Some err)],
              pool := (pool s)[i := WFailed]\<rparr>)"
| w_page:
    "i < length (pool s) \<Longrightarrow> pool s ! i = WCounted v \<Longrightarrow> url_Parse v = Some parsedURL
     \<Longrightarrow> fetchPage (crawler s) (newRequest (crawler s) v) v = (Inr (response, c1), ev)
     \<Longrightarrow> parsePage c1 (Hostname parsedURL) response = ((parsed, parseErr), evp)
     \<Longrightarrow> step ext s (LCallback i v)
           (s\<lparr>crawler := c1,
              callbacks := callbacks s @ [(newRequest (crawler s) v, parsed, parseErr)],
              pool := (pool s)[i := WQueue
                (filterURLs (followBehavior c1) parsedURL
                   (extractURLs (Links response) (Hostname parsedURL))) []]\<rparr>)"
| w_failed:
    "i < length (pool s) \<Longrightarrow> pool s ! i = WFailed
     \<Longrightarrow> step ext s (LWorker i)
           (s\<lparr>crawler := IncrementFailed (crawler s), pool := (pool s)[i := WLeave]\<rparr>)"
| w_q_limit:
    "i < length (pool s) \<Longrightarrow> pool s ! i = WQueue (rawURL # urls) nxt
     \<Longrightarrow> GetProcessed (crawler s) \<ge> maxURLs (crawler s)
     \<Longrightarrow> step ext s (LWorker i) (s\<lparr>pool := (pool s)[i := WSucceed]\<rparr>)"
| w_q_invalid:
    "i < length (pool s) \<Longrightarrow> pool s ! i = WQueue (rawURL # urls) nxt
     \<Longrightarrow> GetProcessed (crawler s) < maxURLs (crawler s)
     \<Longrightarrow> NormalizeURL rawURL = Inl err
     \<Longrightarrow> step ext s (LWorker i) (s\<lparr>pool := (pool s)[i := WQueue urls nxt]\<rparr>)"
| w_q_key:
    "i < length (pool s) \<Longrightarrow> pool s ! i = WQueue (rawURL # urls) nxt
     \<Longrightarrow> GetProcessed (crawler s) < maxURLs (crawler s)
     \<Longrightarrow> NormalizeURL rawURL = Inr u
     \<Longrightarrow> step ext s (LWorker i) (s\<lparr>pool := (pool s)[i := WStore (String u) urls nxt]\<rparr>)"
| w_q_seen:
    "i < length (pool s) \<Longrightarrow> pool s ! i = WStore key urls nxt
     \<Longrightarrow> LoadOrStore (processedURLs (crawler s)) key = (m, True)
     \<Longrightarrow> step ext s (LWorker i)
           (s\<lparr>crawler := (crawler s)\<lparr>processedURLs := m\<rparr>,
              pool := (pool s)[i := WQueue urls nxt]\<rparr>)"
| w_q_admit:
    "i < length (pool s) \<Longrightarrow> pool s ! i = WStore key urls nxt
     \<Longrightarrow> LoadOrStore (processedURLs (crawler s)) key = (m, False)
     \<Longrightarrow> step ext s (LAdmit key)
           (s\<lparr>crawler := (crawler s)\<lparr>processedURLs := m\<rparr>,
              pool := (pool s)[i := WQueue urls (nxt @ [key])]\<rparr>)"
| w_send:
    "i < length (pool s) \<Longrightarrow> pool s ! i = WQueue [] nxt
     \<Longrightarrow> \<not> queueClosed (crawler s)
     \<Longrightarrow> length (queue (crawler s)) < queueCap (crawler s)
     \<Longrightarrow> step ext s (LSend urlStr)
           (s\<lparr>crawler := (crawler s)\<lparr>queue := queue (crawler s) @ [urlStr]\<rparr>,
              pushed := pushed s @ [urlStr], pool := (pool s)[i := WSucceed]\<rparr>)"
| w_ctx:
    "i < length (pool s) \<Longrightarrow> pool s ! i = WQueue [] nxt \<Longrightarrow> cancelled s
     \<Longrightarrow> step ext s (LWorker i) (s\<lparr>pool := (pool s)[i := WSucceed]\<rparr>)"
| w_default:
    "i < length (pool s) \<Longrightarrow> pool s ! i = WQueue [] nxt \<Longrightarrow> \<not> cancelled s
     \<Longrightarrow> \<not> queueClosed (crawler s)
     \<Longrightarrow> queueCap (crawler s) \<le> length (queue (crawler s))
     \<Longrightarrow> step ext s (LDrop i nxt) (s\<lparr>pool := (pool s)[i := WSucceed]\<rparr>)"
| w_succeed:
    "i < length (pool s) \<Longrightarrow> pool s ! i = WSucceed
     \<Longrightarrow> step ext s (LWorker i)
           (s\<lparr>crawler := IncrementSucceeded (crawler s), pool := (pool s)[i := WLeave]\<rparr>)"
| w_leave:
    "i < length (pool s) \<Longrightarrow> pool s ! i = WLeave
     \<Longrightarrow> step ext s (LWorker i)
           (s\<lparr>crawler := (crawler s)\<lparr>activeWorkers := activeWorkers (crawler s) - 1\<rparr>,
              pool := (pool s)[i := WIdle]\<rparr>)"

text \<open>The states a run reaches from \<open>s\<close>.\<close>

inductive steps :: "bool \<Rightarrow> sys \<Rightarrow> sys \<Rightarrow> bool" for ext :: bool and s :: sys where
  steps_refl: "steps ext s s"
| steps_step: "steps ext s t \<Longrightarrow> step ext t l u \<Longrightarrow> steps ext s u"

text \<open>
  Runs to try the properties on.  The fetcher knows two pages:
  \<open>https://example.com\<close>, with one link \<open>/a\<close>, and \<open>https://example.com/b\<close>, with
  no link; for any other URL it fails.  The queue has room for one entry and there is
  one worker.  \<open>demoState\<close> is a state of such a run, given the parts that change: the
  seen set, the queue and whether it is closed, the active workers, the three
  counters, \<open>running\<close>, whether the context is cancelled, the goroutine of \<open>Crawl\<close>, the
  workers and the two histories.
\<close>

definition demoFetcher :: "Request \<Rightarrow> error + Response" where
  "demoFetcher req =
     (if Request_URL req = ''https://example.com''
      then Inr \<lparr>Response_URL = ''https://example.com'', StatusCode = 200, Headers = [],
                HTML = ''<a href=/a>a</a>'', Markdown = [],
                Links = [\<lparr>Link_URL = ''/a'', Link_Text = ''a''\<rparr>]\<rparr>
      else if Request_URL req = ''https://example.com/b''
      then Inr \<lparr>Response_URL = ''https://example.com/b'', StatusCode = 200, Headers = [],
                HTML = ''<p>b</p>'', Markdown = [], Links = []\<rparr>
      else Inl (CollaboratorError ''no mock response configured''))"

definition demoOptions :: Options where
  "demoOptions = \<lparr>MaxURLs = 10, Workers = 1, Cache = None, Fetcher = demoFetcher,
     FetcherName = [], Parsers = Map.empty, DefaultParser = None,
     FollowBehavior = FollowAny, QueueSize = 1\<rparr>"

definition demoState ::
  "string set \<Rightarrow> string list \<Rightarrow> bool \<Rightarrow> int \<Rightarrow> int \<Rightarrow> int \<Rightarrow> int \<Rightarrow> bool \<Rightarrow> bool
   \<Rightarrow> mstate \<Rightarrow> wstate list
   \<Rightarrow> (Request \<times> string option \<times> error option) list \<Rightarrow> string list \<Rightarrow> sys" where
  "demoState seen q closed active proc succ fail run cancel m ws cbs ps =
     \<lparr>crawler = (New demoOptions)\<lparr>processedURLs := seen, queue := q, queueClosed := closed,
          activeWorkers := active,
          stats := \<lparr>processed = proc, succeeded = succ, failed = fail\<rparr>, running := run\<rparr>,
      cancelled = cancel, main = m, pool = ws, callbacks = cbs, pushed = ps\<rparr>"

abbreviation "url_k \<equiv> ''https://example.com''"

abbreviation "url_b \<equiv> ''https://example.com/b''"

abbreviation "url_a \<equiv> ''https://example.com/a''"

abbreviation "demoSeeds \<equiv> [''example.com'', ''https://example.com/'', ''example.com/b'']"

abbreviation "demoReq v \<equiv> \<lparr>Request_URL = v, OnlyMainContent = False, Prettify = False,
                         Request_Fetcher = ''http''\<rparr>"

abbreviation "demoPage \<equiv> newURL\<lparr>Scheme := ''https'', Host := ''example.com''\<rparr>"

abbreviation "demoPageAt p \<equiv> newURL\<lparr>Scheme := ''https'', Host := ''example.com'', Path := p\<rparr>"

abbreviation "demoResponse \<equiv>
  \<lparr>Response_URL = ''https://example.com'', StatusCode = 200, Headers = [],
    HTML = ''<a href=/a>a</a>'', Markdown = [],
    Links = [\<lparr>Link_URL = ''/a'', Link_Text = ''a''\<rparr>]\<rparr>"

abbreviation "demoResponseB \<equiv>
  \<lparr>Response_URL = ''https://example.com/b'', StatusCode = 200, Headers = [],
    HTML = ''<p>b</p>'', Markdown = [], Links = []\<rparr>"

abbreviation "demoError \<equiv> CollaboratorError ''no mock response configured''"

text \<open>A parser to try page processing on: it hands back the markup it was given.\<close>

definition demoParser :: Parser where
  "demoParser response = (Some (HTML response), None)"

text \<open>
  The crawler of the test \<open>TestCrawler_WithCache\<close>, with a default parser: the cache
  holds \<open>https://example.com\<close> and the fetcher has no response.
\<close>

definition cachedCrawler :: Crawler where
  "cachedCrawler = (testCrawler (Some [''https://example.com'' \<mapsto> ''<html></html>'']))
     \<lparr>defaultParser := Some demoParser\<rparr>"

text \<open>
  The seeds as \<open>enqueue\<close> reads them: the error of the first seed that
  \<open>NormalizeURL\<close> rejects, if there is one, and the keys (\<open>u.String()\<close>) of the seeds
  before it.
\<close>

fun firstError :: "string list \<Rightarrow> error option" where
  "firstError [] = None"
| "firstError (rawURL # urls) =
     (case NormalizeURL rawURL of Inl err \<Rightarrow> Some err | Inr u \<Rightarrow> firstError urls)"

fun seedKeys :: "string list \<Rightarrow> string list" where
  "seedKeys [] = []"
| "seedKeys (rawURL # urls) =
     (case NormalizeURL rawURL of Inl err \<Rightarrow> [] | Inr u \<Rightarrow> String u # seedKeys urls)"

text \<open>
  A run from \<open>s0\<close> to \<open>s\<close> went through a state in which \<open>Crawl\<close> was blocked in the
  send of a seed's key, stored in the seen set, and the context was cancelled.
\<close>

definition cancelled_in_send :: "bool \<Rightarrow> sys \<Rightarrow> string list \<Rightarrow> sys \<Rightarrow> bool" where
  "cancelled_in_send ext s0 urls s =
     (\<exists>t v rest queued. steps ext s0 t \<and> steps ext t s \<and> main t = MSend v rest queued
        \<and> cancelled t \<and> v \<in> set (seedKeys urls) \<and> v \<in> processedURLs (crawler t))"

text \<open>
  What \<open>Crawl\<close> may return, given the URLs it was called with and whether a run was
  in progress; and what that says of each program point of \<open>Crawl\<close>.
\<close>

definition returns_ok :: "bool \<Rightarrow> sys \<Rightarrow> bool \<Rightarrow> string list \<Rightarrow> sys \<Rightarrow> error option \<Rightarrow> bool" where
  "returns_ok ext s0 r urls s res =
     (case res of
        None \<Rightarrow> \<not> r \<and> firstError urls = None
      | Some e \<Rightarrow> (r \<and> e = AlreadyRunning)
                 \<or> (\<not> r \<and> firstError urls = Some e)
                 \<or> (\<not> r \<and> e = ContextCanceled \<and> cancelled_in_send ext s0 urls s))"

fun main_ok :: "bool \<Rightarrow> sys \<Rightarrow> bool \<Rightarrow> string list \<Rightarrow> sys \<Rightarrow> mstate \<Rightarrow> bool" where
  "main_ok ext s0 r urls s (MStart us) = (us = urls \<and> running (crawler s) = r)"
| "main_ok ext s0 r urls s (MEnqueue us queued) =
     (\<not> r \<and> firstError urls = firstError us \<and> set (seedKeys us) \<subseteq> set (seedKeys urls))"
| "main_ok ext s0 r urls s (MSend v us queued) =
     (\<not> r \<and> firstError urls = firstError us \<and> set (seedKeys us) \<subseteq> set (seedKeys urls)
      \<and> v \<in> set (seedKeys urls) \<and> v \<in> processedURLs (crawler s))"
| "main_ok ext s0 r urls s MWait = (\<not> r \<and> firstError urls = None)"
| "main_ok ext s0 r urls s (MReturning res) = returns_ok ext s0 r urls s res"
| "main_ok ext s0 r urls s (MClosed res) = returns_ok ext s0 r urls s res"
| "main_ok ext s0 r urls s (MReturned res) = returns_ok ext s0 r urls s res"

text \<open>
  The steps of \<open>NormalizeURL\<close> in the words of the specification.  A scheme-like
  prefix is \<open>http://\<close> or \<open>https://\<close>; the coercion puts \<open>https://\<close> in front of a
  string without one and rewrites \<open>http://\<close> to \<open>https://\<close>; after parsing, query and
  fragment are cleared and the bare root path becomes the empty path.
\<close>

definition schemePrefixed :: "string \<Rightarrow> bool" where
  "schemePrefixed v = (HasPrefix v ''http://'' \<or> HasPrefix v ''https://'')"

definition httpsCoerced :: "string \<Rightarrow> string" where
  "httpsCoerced v =
     (if HasPrefix v ''https://'' then v
      else if HasPrefix v ''http://'' then ''https://'' @ drop 7 v
      else ''https://'' @ v)"

definition clearQueryFragment :: "URL \<Rightarrow> URL" where
  "clearQueryFragment p =
     (if Path p = ''/''
      then p\<lparr>ForceQuery := False, RawQuery := [], Fragment := [], Path := []\<rparr>
      else p\<lparr>ForceQuery := False, RawQuery := [], Fragment := []\<rparr>)"

text \<open>
  The inputs on which the test of the code for a scheme-like prefix,
  \<open>HasPrefix(value, "http")\<close>, and the prefixes \<open>http://\<close> and \<open>https://\<close> agree.
\<close>

definition httpPrefixIsScheme :: "string \<Rightarrow> bool" where
  "httpPrefixIsScheme v = (schemePrefixed v \<or> \<not> HasPrefix v ''http'')"

text \<open>
  Plain URLs: \<open>https://\<close>, a host of unreserved bytes (letters, digits and \<open>-_.~\<close>)
  that is not empty, and a path that is empty or starts with \<open>/\<close>, is not \<open>/\<close>
  alone, and has unreserved bytes and slashes only.
\<close>

definition plainByte :: "char \<Rightarrow> bool" where
  "plainByte c = (isLower c \<or> isUpper c \<or> isDigit c \<or> c \<in> set ''-_.~'')"

definition pathByte :: "char \<Rightarrow> bool" where
  "pathByte c = (plainByte c \<or> c = CHR ''/'')"

definition plainURL :: "string \<Rightarrow> bool" where
  "plainURL t =
     (HasPrefix t ''https://''
      \<and> (let rest = drop 8 t;
              h = takeWhile (\<lambda>c. c \<noteq> CHR ''/'') rest;
              p = dropWhile (\<lambda>c. c \<noteq> CHR ''/'') rest
          in h \<noteq> [] \<and> list_all plainByte h \<and> list_all pathByte p \<and> p \<noteq> ''/''))"

text \<open>The key the crawler stores for a URL: \<open>u.String()\<close> of the normalized URL.\<close>

definition NormalizeURL_String :: "string \<Rightarrow> error + string" where
  "NormalizeURL_String raw =
     (case NormalizeURL raw of Inl err \<Rightarrow> Inl err | Inr u \<Rightarrow> Inr (String u))"

text \<open>The base of a relative link: the page's domain with \<open>https://\<close> in front unless it
  carries a scheme already.\<close>

definition coerceBase :: "string \<Rightarrow> string" where
  "coerceBase domain =
     (if HasPrefix domain ''http://'' \<or> HasPrefix domain ''https://'' then domain
      else ''https://'' @ domain)"

text \<open>The bytes a scheme is made of.\<close>

definition schemeByte :: "char \<Rightarrow> bool" where
  "schemeByte c = (isLower c \<or> isUpper c \<or> isDigit c \<or> c \<in> set ''+-.'')"

section \<open>Properties of the follow policy\<close>

lemma SplitByte_nonempty: "SplitByte s sep \<noteq> []"
  by (induction s) auto

lemma SplitByte_no_sep: "p \<in> set (SplitByte s sep) \<Longrightarrow> sep \<notin> set p"
proof (induction s arbitrary: p)
  case Nil
  then show ?case by simp
next
  case (Cons c cs)
  obtain q qs where q: "SplitByte cs sep = q # qs"
    using SplitByte_nonempty [of cs sep] by (cases "SplitByte cs sep") auto
  from Cons.IH [of q] q have qsep: "sep \<notin> set q" by simp
  from Cons.IH q have rest: "\<And>r. r \<in> set qs \<Longrightarrow> sep \<notin> set r" by simp
  show ?case
  proof (cases "c = sep")
    case True
    with Cons.prems q Cons.IH show ?thesis by auto
  next
    case False
    with Cons.prems q have "p = c # q \<or> p \<in> set qs" by auto
    with False qsep rest show ?thesis by auto
  qed
qed

lemma append_sep_inject:
  assumes "sep \<notin> set a" and "sep \<notin> set c" and "a @ sep # b = c @ sep # d"
  shows "a = c \<and> b = d"
  using assms
proof (induction a arbitrary: c)
  case Nil
  then show ?case by (cases c) auto
next
  case (Cons x xs)
  then show ?case by (cases c) auto
qed

lemma Join_two_inject:
  assumes "length ps = 2" and "length qs = 2"
    and "\<And>p. p \<in> set ps \<Longrightarrow> CHR ''.'' \<notin> set p"
    and "\<And>q. q \<in> set qs \<Longrightarrow> CHR ''.'' \<notin> set q"
  shows "Join ps ''.'' = Join qs ''.'' \<longleftrightarrow> ps = qs"
proof -
  from assms(1) obtain a b where ps: "ps = [a, b]"
    by (cases ps; cases "tl ps") auto
  from assms(2) obtain c d where qs: "qs = [c, d]"
    by (cases qs; cases "tl qs") auto
  from assms(3) ps have a: "CHR ''.'' \<notin> set a" by simp
  from assms(4) qs have c: "CHR ''.'' \<notin> set c" by simp
  show ?thesis
    using append_sep_inject [OF a c, of b d] by (auto simp: ps qs)
qed

lemma AreRelatedHosts_labels:
  "AreRelatedHosts (Some u) (Some v) \<longleftrightarrow>
     2 \<le> length (hostLabels (Host u)) \<and> 2 \<le> length (hostLabels (Host v))
     \<and> lastTwoLabels (Host u) = lastTwoLabels (Host v)"
proof (cases "2 \<le> length (hostLabels (Host u)) \<and> 2 \<le> length (hostLabels (Host v))")
  case False
  then show ?thesis
    by (auto simp: AreRelatedHosts_def hostLabels_def Let_def)
next
  case True
  let ?ps = "lastTwoLabels (Host u)" and ?qs = "lastTwoLabels (Host v)"
  from True have len: "length ?ps = 2" "length ?qs = 2"
    by (auto simp: lastTwoLabels_def)
  have nodot: "\<And>h p. p \<in> set (lastTwoLabels h) \<Longrightarrow> CHR ''.'' \<notin> set p"
    unfolding lastTwoLabels_def hostLabels_def
    by (meson SplitByte_no_sep in_set_dropD)
  have "Join ?ps ''.'' = Join ?qs ''.'' \<longleftrightarrow> ?ps = ?qs"
    by (rule Join_two_inject [OF len nodot nodot])
  with True show ?thesis
    by (auto simp: AreRelatedHosts_def hostLabels_def lastTwoLabels_def Let_def)
qed

lemma filterURLs_loop_filter:
  "filterURLs_loop fb pageURL links filtered
   = filtered @ filter (admits fb pageURL) links"
proof (induction links arbitrary: filtered fb)
  case Nil
  then show ?case by simp
next
  case (Cons rawURL links)
  show ?case
  proof (cases "NormalizeURL rawURL")
    case (Inl err)
    then show ?thesis by (simp add: Cons.IH admits_def)
  next
    case (Inr u)
    have adm: "admits fb pageURL rawURL \<longleftrightarrow>
        fb = FollowAny
        \<or> fb = FollowSameDomain \<and> AreSameHost (Some u) (Some pageURL)
        \<or> fb = FollowRelatedSubdomains \<and> AreRelatedHosts (Some u) (Some pageURL)"
      using Inr
      by (auto simp: admits_def admitsHost_def AreSameHost_def AreRelatedHosts_labels
          FollowAny_def FollowSameDomain_def FollowRelatedSubdomains_def FollowNone_def)
    have distinct_names: "FollowAny \<noteq> FollowSameDomain" "FollowAny \<noteq> FollowRelatedSubdomains"
      "FollowSameDomain \<noteq> FollowRelatedSubdomains"
      by (simp_all add: FollowAny_def FollowSameDomain_def FollowRelatedSubdomains_def)
    show ?thesis
      using Inr distinct_names by (simp add: Cons.IH adm)
  qed
qed

lemma filterURLs_filter:
  "filterURLs fb pageURL links = filter (admits fb pageURL) links"
proof (cases "fb = FollowNone")
  case True
  then show ?thesis
    by (simp add: filterURLs_def admits_def admitsHost_def split: sum.split)
next
  case False
  then show ?thesis by (simp add: filterURLs_def filterURLs_loop_filter)
qed

text \<open>
  Claim C5.  The follow policy is a function of the hosts of the page and of the
  normalized candidate: \<open>filterURLs\<close> keeps, in their order, exactly the links that
  \<open>admits\<close> accepts.  \<open>FollowNone\<close> keeps nothing, \<open>FollowAny\<close> keeps every link that
  normalizes, \<open>FollowSameDomain\<close> keeps the links whose host equals the page's,
  \<open>FollowRelatedSubdomains\<close> keeps the links whose last two host labels are the
  page's, both hosts having at least two labels.  For the page
  \<open>https://example.com\<close> and the three candidates of the specification the four
  behaviours keep 0, the first, all 3, and the first and the third.
\<close>

theorem follow_policy_by_hosts:
  "filterURLs fb pageURL links = filter (admits fb pageURL) links
   \<and> filterURLs FollowNone pageURL links = []
   \<and> filterURLs FollowAny pageURL links
       = filter (\<lambda>r. \<exists>u. NormalizeURL r = Inr u) links
   \<and> filterURLs FollowSameDomain pageURL links
       = filter (\<lambda>r. \<exists>u. NormalizeURL r = Inr u \<and> Host u = Host pageURL) links
   \<and> filterURLs FollowRelatedSubdomains pageURL links
       = filter (\<lambda>r. \<exists>u. NormalizeURL r = Inr u
                    \<and> 2 \<le> length (hostLabels (Host u))
                    \<and> 2 \<le> length (hostLabels (Host pageURL))
                    \<and> lastTwoLabels (Host u) = lastTwoLabels (Host pageURL)) links
   \<and> (length (hostLabels (Host u1)) < 2 \<or> length (hostLabels (Host u2)) < 2
        \<longrightarrow> \<not> AreRelatedHosts (Some u1) (Some u2))
   \<and> map_option (\<lambda>page. filterURLs FollowNone page
          [''https://example.com/a'', ''https://other.com/b'', ''https://sub.example.com/c''])
        (url_Parse ''https://example.com'') = Some []
   \<and> map_option (\<lambda>page. filterURLs FollowSameDomain page
          [''https://example.com/a'', ''https://other.com/b'', ''https://sub.example.com/c''])
        (url_Parse ''https://example.com'') = Some [''https://example.com/a'']
   \<and> map_option (\<lambda>page. filterURLs FollowAny page
          [''https://example.com/a'', ''https://other.com/b'', ''https://sub.example.com/c''])
        (url_Parse ''https://example.com'')
       = Some [''https://example.com/a'', ''https://other.com/b'', ''https://sub.example.com/c'']
   \<and> map_option (\<lambda>page. filterURLs FollowRelatedSubdomains page
          [''https://example.com/a'', ''https://other.com/b'', ''https://sub.example.com/c''])
        (url_Parse ''https://example.com'')
       = Some [''https://example.com/a'', ''https://sub.example.com/c'']"
proof -
  have names: "FollowAny \<noteq> FollowNone" "FollowSameDomain \<noteq> FollowNone"
    "FollowRelatedSubdomains \<noteq> FollowNone" "FollowSameDomain \<noteq> FollowAny"
    "FollowRelatedSubdomains \<noteq> FollowAny" "FollowRelatedSubdomains \<noteq> FollowSameDomain"
    by (simp_all add: FollowAny_def FollowSameDomain_def FollowRelatedSubdomains_def
        FollowNone_def)
  have pred: "admits fb' pageURL r \<longleftrightarrow>
      (\<exists>u. NormalizeURL r = Inr u \<and> admitsHost fb' (Host pageURL) (Host u))" for fb' r
    by (cases "NormalizeURL r") (simp_all add: admits_def)
  have none: "filterURLs FollowNone pageURL links = []"
    by (simp add: filterURLs_def)
  have any: "filterURLs FollowAny pageURL links
      = filter (\<lambda>r. \<exists>u. NormalizeURL r = Inr u) links"
    unfolding filterURLs_filter using names
    by (intro filter_cong refl) (simp add: pred admitsHost_def)
  have same: "filterURLs FollowSameDomain pageURL links
      = filter (\<lambda>r. \<exists>u. NormalizeURL r = Inr u \<and> Host u = Host pageURL) links"
    unfolding filterURLs_filter using names
    by (intro filter_cong refl) (simp add: pred admitsHost_def)
  have related: "filterURLs FollowRelatedSubdomains pageURL links
      = filter (\<lambda>r. \<exists>u. NormalizeURL r = Inr u
                    \<and> 2 \<le> length (hostLabels (Host u))
                    \<and> 2 \<le> length (hostLabels (Host pageURL))
                    \<and> lastTwoLabels (Host u) = lastTwoLabels (Host pageURL)) links"
    unfolding filterURLs_filter using names
    by (intro filter_cong refl) (simp add: pred admitsHost_def)
  have few: "length (hostLabels (Host u1)) < 2 \<or> length (hostLabels (Host u2)) < 2
      \<longrightarrow> \<not> AreRelatedHosts (Some u1) (Some u2)"
    by (auto simp: AreRelatedHosts_labels)
  have e0: "map_option (\<lambda>page. filterURLs FollowNone page
          [''https://example.com/a'', ''https://other.com/b'', ''https://sub.example.com/c''])
        (url_Parse ''https://example.com'') = Some []"
    by code_simp
  have e1: "map_option (\<lambda>page. filterURLs FollowSameDomain page
          [''https://example.com/a'', ''https://other.com/b'', ''https://sub.example.com/c''])
        (url_Parse ''https://example.com'') = Some [''https://example.com/a'']"
    by code_simp
  have e2: "map_option (\<lambda>page. filterURLs FollowAny page
          [''https://example.com/a'', ''https://other.com/b'', ''https://sub.example.com/c''])
        (url_Parse ''https://example.com'')
       = Some [''https://example.com/a'', ''https://other.com/b'', ''https://sub.example.com/c'']"
    by code_simp
  have e3: "map_option (\<lambda>page. filterURLs FollowRelatedSubdomains page
          [''https://example.com/a'', ''https://other.com/b'', ''https://sub.example.com/c''])
        (url_Parse ''https://example.com'')
       = Some [''https://example.com/a'', ''https://sub.example.com/c'']"
    by code_simp
  show ?thesis
    using filterURLs_filter none any same related few e0 e1 e2 e3 by blast
qed

text \<open>
  The theorem at a host of one label: \<open>localhost\<close> is related to no host, not even to
  itself, and a link to it is dropped under \<open>FollowRelatedSubdomains\<close>.
\<close>

theorem follow_policy_by_hosts_witness:
  "length (hostLabels (Host (newURL\<lparr>Host := ''localhost''\<rparr>))) < 2
   \<and> \<not> AreRelatedHosts (Some (newURL\<lparr>Host := ''localhost''\<rparr>))
         (Some (newURL\<lparr>Host := ''localhost''\<rparr>))
   \<and> filterURLs FollowRelatedSubdomains (newURL\<lparr>Host := ''localhost''\<rparr>)
        [''https://localhost/x''] = []"
proof -
  let ?p = "newURL\<lparr>Host := ''localhost''\<rparr>"
  have len: "length (hostLabels (Host ?p)) < 2"
    by code_simp
  note inst = follow_policy_by_hosts [of FollowRelatedSubdomains ?p
      "[''https://localhost/x'']" ?p ?p]
  from inst len have unrelated: "\<not> AreRelatedHosts (Some ?p) (Some ?p)"
    by blast
  from inst have "filterURLs FollowRelatedSubdomains ?p [''https://localhost/x'']
      = filter (\<lambda>r. \<exists>u. NormalizeURL r = Inr u
                    \<and> 2 \<le> length (hostLabels (Host u))
                    \<and> 2 \<le> length (hostLabels (Host ?p))
                    \<and> lastTwoLabels (Host u) = lastTwoLabels (Host ?p))
          [''https://localhost/x'']"
    by blast
  with len have "filterURLs FollowRelatedSubdomains ?p [''https://localhost/x''] = []"
    by simp
  with len unrelated show ?thesis by blast
qed

section \<open>Properties of parsing and printing URLs\<close>

lemma HasPrefix_single: "HasPrefix (x # xs) [c] \<longleftrightarrow> x = c"
  by (simp add: HasPrefix_def)

lemma Index_single_take: "Index s [c] = Some i \<Longrightarrow> c \<notin> set (take i s)"
proof (induction s arbitrary: i)
  case Nil
  then show ?case by simp
next
  case (Cons x xs)
  then show ?case
    by (auto simp: HasPrefix_single split: if_splits)
qed

lemma Index_single_None: "Index s [c] = None \<Longrightarrow> c \<notin> set s"
  by (induction s) (auto simp: HasPrefix_single split: if_splits)

lemma Cut_fst_no_sep: "c \<notin> set (fst (Cut s [c]))"
  by (auto simp: Cut_def dest: Index_single_take Index_single_None split: option.splits)

lemma Cut_fst_subset: "set (fst (Cut s sep)) \<subseteq> set s"
  by (auto simp: Cut_def split: option.splits dest: in_set_takeD)

lemma getSchemeLoop_result:
  "getSchemeLoop raw pre cs = Some (sch, rest) \<Longrightarrow> list_all schemeByte pre
   \<Longrightarrow> list_all schemeByte sch \<and> (set rest \<subseteq> set raw \<or> set rest \<subseteq> set cs)"
proof (induction cs arbitrary: pre)
  case Nil
  then show ?case by auto
next
  case (Cons c cs)
  show ?case
  proof (cases "isLower c \<or> isUpper c \<or> (isDigit c \<or> c \<in> set ''+-.'') \<and> pre \<noteq> []")
    case True
    with Cons.prems have "getSchemeLoop raw (pre @ [c]) cs = Some (sch, rest)"
      by (auto split: if_splits)
    moreover from True have "schemeByte c"
      by (auto simp: schemeByte_def)
    with Cons.prems(2) have "list_all schemeByte (pre @ [c])"
      by simp
    ultimately show ?thesis using Cons.IH by fastforce
  next
    case False
    with Cons.prems show ?thesis
      by (auto split: if_splits)
  qed
qed

lemma getScheme_result:
  assumes "getScheme raw = Some (sch, rest)"
  shows "list_all schemeByte sch" and "set rest \<subseteq> set raw"
  using getSchemeLoop_result [of raw "[]" raw sch rest] assms
  by (auto simp: getScheme_def)

lemma toLowerByte_schemeByte_no_hash: "schemeByte c \<Longrightarrow> toLowerByte c \<noteq> CHR ''#''"
  unfolding schemeByte_def toLowerByte_def isUpper_def isLower_def isDigit_def
  by (elim disjE; simp; elim disjE; simp add: char_of_eq_iff)

lemma ToLower_no_hash: "list_all schemeByte s \<Longrightarrow> CHR ''#'' \<notin> set (ToLower s)"
  using toLowerByte_schemeByte_no_hash by (fastforce simp: ToLower_def list_all_iff)

lemma shouldEscape_hash: "shouldEscape (CHR ''#'') mode"
  by (cases mode) (simp_all add: shouldEscape_def isLower_def isUpper_def isDigit_def)

lemma upperhex_in: "upperhex n \<in> set ''0123456789ABCDEF''"
proof -
  have "n mod 16 < length ''0123456789ABCDEF''" by simp
  then show ?thesis unfolding upperhex_def by (rule nth_mem)
qed

lemma upperhex_not_hash: "upperhex n \<noteq> CHR ''#''"
  using upperhex_in [of n] by auto

lemma escapeByte_no_hash: "CHR ''#'' \<notin> set (escapeByte c mode)"
  using shouldEscape_hash [of mode]
  by (auto simp: escapeByte_def upperhex_not_hash [symmetric])

lemma escape_no_hash: "CHR ''#'' \<notin> set (escape s mode)"
  by (simp add: escape_def escapeByte_no_hash)

lemma validEncoded_no_hash:
  assumes "validEncoded s mode"
  shows "CHR ''#'' \<notin> set s"
proof
  assume "CHR ''#'' \<in> set s"
  with assms have "CHR ''#'' \<in> set (''!$&'' @ [CHR 0x27] @ ''()*+,;=:@[]%'')
      \<or> \<not> shouldEscape (CHR ''#'') mode"
    unfolding validEncoded_def list_all_iff by blast
  moreover have "CHR ''#'' \<notin> set (''!$&'' @ [CHR 0x27] @ ''()*+,;=:@[]%'')"
    by simp
  ultimately show False using shouldEscape_hash [of mode] by blast
qed

lemma setPath_fields:
  "setPath u p = Some u' \<Longrightarrow> Scheme u' = Scheme u \<and> Opaque u' = Opaque u"
  by (auto simp: setPath_def split: option.splits)

lemma parseRest_fields:
  "parseRest u r = Some u' \<Longrightarrow> Scheme u' = Scheme u \<and> Opaque u' = Opaque u"
  by (auto simp: parseRest_def Let_def split: option.splits if_splits dest!: setPath_fields)

lemma parse_no_hash:
  assumes "parse raw = Some url" and "CHR ''#'' \<notin> set raw"
  shows "CHR ''#'' \<notin> set (Scheme url) \<and> CHR ''#'' \<notin> set (Opaque url)"
proof (cases "raw = ''*''")
  case True
  with assms show ?thesis by (auto simp: parse_def newURL_def split: if_splits)
next
  case False
  with assms(1) obtain sch rest0 where gs: "getScheme raw = Some (sch, rest0)"
    by (auto simp: parse_def split: if_splits option.splits)
  note res = getScheme_result [OF gs]
  from res(1) have sch: "CHR ''#'' \<notin> set (ToLower sch)" by (rule ToLower_no_hash)
  from res(2) assms(2) have r0: "CHR ''#'' \<notin> set rest0" by auto
  have r1: "CHR ''#'' \<notin> set (butlast rest0)"
    using r0 by (meson in_set_butlastD)
  have r2: "CHR ''#'' \<notin> set (fst (Cut rest0 ''?''))"
    using r0 Cut_fst_subset [of rest0 "''?''"] by auto
  from assms(1) False gs sch r1 r2 show ?thesis
    by (auto simp: parse_def Let_def newURL_def split: if_splits dest!: parseRest_fields)
qed

lemma url_Parse_no_hash:
  assumes "url_Parse raw = Some url"
  shows "CHR ''#'' \<notin> set (Scheme url) \<and> CHR ''#'' \<notin> set (Opaque url)"
proof -
  obtain u frag found where cut: "Cut raw ''#'' = (u, frag, found)"
    by (cases "Cut raw ''#''") auto
  have nohash: "CHR ''#'' \<notin> set u"
    using Cut_fst_no_sep [of "CHR ''#''" raw] cut by simp
  from assms cut obtain url0 where p: "parse u = Some url0"
    and fields: "Scheme url = Scheme url0" "Opaque url = Opaque url0"
    by (auto simp: url_Parse_def setFragment_def split: option.splits if_splits)
  from parse_no_hash [OF p nohash] fields show ?thesis by simp
qed

lemma String_no_hash:
  assumes "CHR ''#'' \<notin> set (Scheme u)" and "CHR ''#'' \<notin> set (Opaque u)"
    and "RawQuery u = []" and "\<not> ForceQuery u" and "Fragment u = []"
  shows "CHR ''#'' \<notin> set (String u)"
proof -
  have ui: "CHR ''#'' \<notin> set (Userinfo_String x)" for x
    by (simp add: Userinfo_String_def escape_no_hash)
  have auth: "CHR ''#'' \<notin> set (String_authority u)"
    by (auto simp: String_authority_def ui escape_no_hash split: option.splits)
  have path: "CHR ''#'' \<notin> set (EscapedPath u)"
    by (auto simp: EscapedPath_def escape_no_hash dest: validEncoded_no_hash)
  have hier: "CHR ''#'' \<notin> set buf \<Longrightarrow> CHR ''#'' \<notin> set (String_hier u buf)" for buf
    using auth path by (auto simp: String_hier_def Let_def)
  from assms hier show ?thesis
    by (auto simp: String_def Let_def)
qed

lemma NormalizeURL_no_hash:
  assumes "NormalizeURL raw = Inr n"
  shows "CHR ''#'' \<notin> set (String n)"
proof -
  from assms obtain v p where p: "url_Parse v = Some p"
    and n: "n = (let u1 = p\<lparr>ForceQuery := False, RawQuery := [], Fragment := []\<rparr>
                 in if Path u1 = ''/'' then u1\<lparr>Path := []\<rparr> else u1)"
    by (auto simp: NormalizeURL_def Let_def split: if_splits option.splits)
  from url_Parse_no_hash [OF p] n show ?thesis
    by (intro String_no_hash) (auto simp: Let_def)
qed

section \<open>Link resolution\<close>

text \<open>
  Claim C6.  \<open>ResolveLink\<close> fails when the link does not parse and when it is absolute
  with a scheme other than http and https (\<open>mailto:\<close>, \<open>javascript:\<close>, \<open>ftp:\<close>); an
  absolute http or https link is normalized with its fragment removed; a relative
  link is resolved against the domain, coerced to an \<open>https://\<close> base, and the result
  is normalized.  A link that resolves has no \<open>#\<close> left in it.  The three examples
  of the specification evaluate as it says.
\<close>

theorem ResolveLink_contract:
  "(url_Parse v = None \<longrightarrow> ResolveLink d v = ([], False))
   \<and> (\<forall>p. url_Parse v = Some p \<and> Scheme p \<noteq> [] \<and> Scheme p \<noteq> ''http'' \<and> Scheme p \<noteq> ''https''
          \<longrightarrow> ResolveLink d v = ([], False))
   \<and> (\<forall>p. url_Parse v = Some p \<and> (Scheme p = ''http'' \<or> Scheme p = ''https'')
          \<longrightarrow> ResolveLink d v
              = (case NormalizeURL (String (p\<lparr>Fragment := []\<rparr>)) of
                   Inl err \<Rightarrow> ([], False)
                 | Inr n \<Rightarrow> (String n, True)))
   \<and> (\<forall>p. url_Parse v = Some p \<and> Scheme p = []
          \<longrightarrow> ResolveLink d v
              = (case url_Parse (coerceBase d) of
                   None \<Rightarrow> ([], False)
                 | Some b \<Rightarrow>
                     (case NormalizeURL (String (ResolveReference b (p\<lparr>Fragment := []\<rparr>))) of
                        Inl err \<Rightarrow> ([], False)
                      | Inr n \<Rightarrow> (String n, True))))
   \<and> (\<forall>s. ResolveLink d v = (s, True) \<longrightarrow> CHR ''#'' \<notin> set s)
   \<and> ResolveLink ''example.com'' ''/about'' = (''https://example.com/about'', True)
   \<and> ResolveLink ''example.com'' ''javascript:void(0)'' = ([], False)
   \<and> ResolveLink ''example.com'' ''https://x.com/p#frag'' = (''https://x.com/p'', True)
   \<and> ResolveLink ''example.com'' ''mailto:test@example.com'' = ([], False)
   \<and> ResolveLink ''example.com'' ''ftp://example.com/file'' = ([], False)"
proof -
  have fail: "url_Parse v = None \<longrightarrow> ResolveLink d v = ([], False)"
    by (simp add: ResolveLink_def)
  have other: "\<forall>p. url_Parse v = Some p \<and> Scheme p \<noteq> [] \<and> Scheme p \<noteq> ''http''
      \<and> Scheme p \<noteq> ''https'' \<longrightarrow> ResolveLink d v = ([], False)"
    by (simp add: ResolveLink_def IsAbs_def Let_def)
  have abs: "\<forall>p. url_Parse v = Some p \<and> (Scheme p = ''http'' \<or> Scheme p = ''https'')
          \<longrightarrow> ResolveLink d v
              = (case NormalizeURL (String (p\<lparr>Fragment := []\<rparr>)) of
                   Inl err \<Rightarrow> ([], False)
                 | Inr n \<Rightarrow> (String n, True))"
    by (auto simp: ResolveLink_def IsAbs_def Let_def)
  have rel: "\<forall>p. url_Parse v = Some p \<and> Scheme p = []
          \<longrightarrow> ResolveLink d v
              = (case url_Parse (coerceBase d) of
                   None \<Rightarrow> ([], False)
                 | Some b \<Rightarrow>
                     (case NormalizeURL (String (ResolveReference b (p\<lparr>Fragment := []\<rparr>))) of
                        Inl err \<Rightarrow> ([], False)
                      | Inr n \<Rightarrow> (String n, True)))"
    by (auto simp: ResolveLink_def IsAbs_def Let_def coerceBase_def)
  have nofrag: "\<forall>s. ResolveLink d v = (s, True) \<longrightarrow> CHR ''#'' \<notin> set s"
    by (auto simp: ResolveLink_def Let_def split: option.splits if_splits sum.splits
        dest: NormalizeURL_no_hash)
  have e1: "ResolveLink ''example.com'' ''/about'' = (''https://example.com/about'', True)"
    by code_simp
  have e2: "ResolveLink ''example.com'' ''javascript:void(0)'' = ([], False)"
    by code_simp
  have e3: "ResolveLink ''example.com'' ''https://x.com/p#frag'' = (''https://x.com/p'', True)"
    by code_simp
  have e4: "ResolveLink ''example.com'' ''mailto:test@example.com'' = ([], False)"
    by code_simp
  have e5: "ResolveLink ''example.com'' ''ftp://example.com/file'' = ([], False)"
    by code_simp
  from fail other abs rel nofrag e1 e2 e3 e4 e5 show ?thesis by blast
qed

text \<open>
  The theorem at four links against the domain \<open>example.com\<close>: one that does not
  parse, a \<open>mailto:\<close> link, an absolute http link with a fragment, a relative link.
\<close>

theorem ResolveLink_contract_witness:
  "url_Parse ''%zz'' = None \<and> ResolveLink ''example.com'' ''%zz'' = ([], False)
   \<and> map_option Scheme (url_Parse ''mailto:test@example.com'') = Some ''mailto''
   \<and> ResolveLink ''example.com'' ''mailto:test@example.com'' = ([], False)
   \<and> map_option Scheme (url_Parse ''http://example.com/page#top'') = Some ''http''
   \<and> ResolveLink ''example.com'' ''http://example.com/page#top''
       = (''https://example.com/page'', True)
   \<and> map_option Scheme (url_Parse ''about'') = Some []
   \<and> ResolveLink ''example.com'' ''about'' = (''https://example.com/about'', True)
   \<and> CHR ''#'' \<notin> set ''https://example.com/page''"
proof -
  let ?mail = "newURL\<lparr>Scheme := ''mailto'', Opaque := ''test@example.com''\<rparr>"
  let ?page = "newURL\<lparr>Scheme := ''http'', Host := ''example.com'', Path := ''/page'',
                      Fragment := ''top''\<rparr>"
  let ?about = "newURL\<lparr>Path := ''about''\<rparr>"
  have p1: "url_Parse ''%zz'' = None" by code_simp
  have r1: "ResolveLink ''example.com'' ''%zz'' = ([], False)"
    by (rule ResolveLink_contract [of "''%zz''" "''example.com''", THEN conjunct1,
          rule_format, OF p1])
  have p2: "url_Parse ''mailto:test@example.com'' = Some ?mail" by code_simp
  have h2: "url_Parse ''mailto:test@example.com'' = Some ?mail \<and> Scheme ?mail \<noteq> []
      \<and> Scheme ?mail \<noteq> ''http'' \<and> Scheme ?mail \<noteq> ''https''"
    using p2 by (simp add: newURL_def)
  have r2: "ResolveLink ''example.com'' ''mailto:test@example.com'' = ([], False)"
    by (rule ResolveLink_contract [of "''mailto:test@example.com''" "''example.com''",
          THEN conjunct2, THEN conjunct1, rule_format, OF h2])
  have p3: "url_Parse ''http://example.com/page#top'' = Some ?page" by code_simp
  have h3: "url_Parse ''http://example.com/page#top'' = Some ?page
      \<and> (Scheme ?page = ''http'' \<or> Scheme ?page = ''https'')"
    using p3 by (simp add: newURL_def)
  have v3: "(case NormalizeURL (String (?page\<lparr>Fragment := []\<rparr>)) of
               Inl err \<Rightarrow> ([], False) | Inr n \<Rightarrow> (String n, True))
      = (''https://example.com/page'', True)"
    by code_simp
  have r3: "ResolveLink ''example.com'' ''http://example.com/page#top''
      = (''https://example.com/page'', True)"
    by (rule trans [OF ResolveLink_contract [of "''http://example.com/page#top''"
            "''example.com''", THEN conjunct2, THEN conjunct2, THEN conjunct1,
            rule_format, OF h3] v3])
  have f3: "CHR ''#'' \<notin> set ''https://example.com/page''"
    by (rule ResolveLink_contract [of "''http://example.com/page#top''" "''example.com''",
          THEN conjunct2, THEN conjunct2, THEN conjunct2, THEN conjunct2, THEN conjunct1,
          rule_format, OF r3])
  have p4: "url_Parse ''about'' = Some ?about" by code_simp
  have h4: "url_Parse ''about'' = Some ?about \<and> Scheme ?about = []"
    using p4 by (simp add: newURL_def)
  have v4: "(case url_Parse (coerceBase ''example.com'') of
               None \<Rightarrow> ([], False)
             | Some b \<Rightarrow>
                 (case NormalizeURL (String (ResolveReference b (?about\<lparr>Fragment := []\<rparr>))) of
                    Inl err \<Rightarrow> ([], False) | Inr n \<Rightarrow> (String n, True)))
      = (''https://example.com/about'', True)"
    by code_simp
  have r4: "ResolveLink ''example.com'' ''about'' = (''https://example.com/about'', True)"
    by (rule trans [OF ResolveLink_contract [of "''about''" "''example.com''",
            THEN conjunct2, THEN conjunct2, THEN conjunct2, THEN conjunct1,
            rule_format, OF h4] v4])
  from p1 r1 p2 r2 p3 r3 p4 r4 f3 show ?thesis by (simp add: newURL_def)
qed

section \<open>Normalization\<close>

lemma HasPrefix_append: "HasPrefix (p @ s) p"
  by (simp add: HasPrefix_def)

lemma HasPrefix_iff: "HasPrefix s p \<longleftrightarrow> (\<exists>r. s = p @ r)"
proof
  assume "HasPrefix s p"
  then have "s = p @ drop (length p) s"
    by (metis HasPrefix_def append_take_drop_id)
  then show "\<exists>r. s = p @ r" ..
next
  assume "\<exists>r. s = p @ r"
  then show "HasPrefix s p" by (auto simp: HasPrefix_def)
qed

lemma Cut_fst_append:
  "c \<notin> set p \<Longrightarrow> fst (Cut (p @ r) [c]) = p @ fst (Cut r [c])"
proof (induction p)
  case Nil
  then show ?case by simp
next
  case (Cons x xs)
  then show ?case
    by (auto simp: Cut_def HasPrefix_single split: option.splits)
qed

lemma getScheme_https: "getScheme (''https://'' @ r) = Some (''https'', ''//'' @ r)"
  by (simp add: getScheme_def isLower_def isUpper_def isDigit_def)

lemma setFragment_Scheme: "setFragment u f = Some u' \<Longrightarrow> Scheme u' = Scheme u"
  by (auto simp: setFragment_def split: option.splits)

lemma ToLower_https: "ToLower ''https'' = ''https''"
  by code_simp

lemma parse_https_Scheme:
  assumes "parse (''https://'' @ r) = Some p"
  shows "Scheme p = ''https''"
  using assms unfolding parse_def getScheme_https
  by (auto simp: ToLower_https Let_def newURL_def
      split: if_splits dest!: parseRest_fields)

lemma url_Parse_https_Scheme:
  assumes "url_Parse (''https://'' @ r) = Some p"
  shows "Scheme p = ''https''"
proof -
  have cut: "fst (Cut (''https://'' @ r) ''#'') = ''https://'' @ fst (Cut r ''#'')"
    by (rule Cut_fst_append) simp
  obtain u frag found where c: "Cut (''https://'' @ r) ''#'' = (u, frag, found)"
    by (cases "Cut (''https://'' @ r) ''#''") auto
  with cut have u: "u = ''https://'' @ fst (Cut r ''#'')" by simp
  from assms c obtain p0 where p0: "parse u = Some p0" and s: "Scheme p = Scheme p0"
    by (auto simp: url_Parse_def split: option.splits if_splits dest: setFragment_Scheme)
  from parse_https_Scheme [OF p0 [unfolded u]] s show ?thesis by simp
qed

lemma httpsCoerced_prefix: "\<exists>r. httpsCoerced v = ''https://'' @ r"
  by (auto simp: httpsCoerced_def HasPrefix_iff)

lemma NormalizeURL_httpsCoerced:
  assumes "httpPrefixIsScheme (TrimSpace raw)"
  shows "NormalizeURL raw =
     (if TrimSpace raw = [] then Inl InvalidEmptyURL
      else if \<not> schemePrefixed (TrimSpace raw) \<and> Contains (TrimSpace raw) ''://''
        then Inl (InvalidURL (TrimSpace raw))
      else (case url_Parse (httpsCoerced (TrimSpace raw)) of
              None \<Rightarrow> Inl (InvalidURLParse (httpsCoerced (TrimSpace raw)))
            | Some p \<Rightarrow> Inr (clearQueryFragment p)))"
proof -
  let ?v = "TrimSpace raw"
  have a: "HasPrefix ?v ''http://'' \<Longrightarrow> HasPrefix ?v ''http''"
    and b: "HasPrefix ?v ''https://'' \<Longrightarrow> HasPrefix ?v ''http''"
    and c: "HasPrefix ?v ''https://'' \<Longrightarrow> \<not> HasPrefix ?v ''http://''"
    and d: "\<not> HasPrefix (''https://'' @ w) ''http://''" for w
    by (auto simp: HasPrefix_iff)
  from assms have e: "HasPrefix ?v ''http'' \<longleftrightarrow> schemePrefixed ?v"
    using a b by (auto simp: httpPrefixIsScheme_def schemePrefixed_def)
  show ?thesis
    unfolding NormalizeURL_def Let_def e
    using a b c d
    by (auto simp: schemePrefixed_def httpsCoerced_def clearQueryFragment_def
        split: option.splits)
qed

text \<open>
  Claim C4, as amended.  Take an input whose trimmed form starts with \<open>http://\<close> or
  \<open>https://\<close>, or does not start with \<open>http\<close>.  \<open>NormalizeURL\<close> returns an error
  exactly when the trimmed input is empty, or it declares another scheme (it contains
  \<open>://\<close> and starts with neither \<open>http://\<close> nor \<open>https://\<close>), or \<open>url.Parse\<close> rejects
  the coerced string.  Otherwise it trims, puts \<open>https://\<close> in front of a string
  without a scheme-like prefix, rewrites a leading \<open>http://\<close> to \<open>https://\<close>, parses,
  clears query and fragment and turns the path \<open>/\<close> into the empty path: the result
  is the parsed coerced string with these fields cleared, and its scheme is \<open>https\<close>.
\<close>

theorem NormalizeURL_coerces_to_https:
  assumes "httpPrefixIsScheme (TrimSpace raw)"
  shows "((\<exists>err. NormalizeURL raw = Inl err) \<longleftrightarrow>
        TrimSpace raw = []
        \<or> (\<not> schemePrefixed (TrimSpace raw) \<and> Contains (TrimSpace raw) ''://'')
        \<or> url_Parse (httpsCoerced (TrimSpace raw)) = None)
   \<and> (\<forall>u. NormalizeURL raw = Inr u \<longrightarrow>
          (\<exists>p. url_Parse (httpsCoerced (TrimSpace raw)) = Some p \<and> u = clearQueryFragment p)
          \<and> Scheme u = ''https'' \<and> RawQuery u = [] \<and> \<not> ForceQuery u \<and> Fragment u = []
          \<and> Path u \<noteq> ''/'')
   \<and> HasPrefix (httpsCoerced (TrimSpace raw)) ''https://''"
proof -
  note eq = NormalizeURL_httpsCoerced [OF assms]
  obtain r where r: "httpsCoerced (TrimSpace raw) = ''https://'' @ r"
    using httpsCoerced_prefix by blast
  have err: "(\<exists>err. NormalizeURL raw = Inl err) \<longleftrightarrow>
        TrimSpace raw = []
        \<or> (\<not> schemePrefixed (TrimSpace raw) \<and> Contains (TrimSpace raw) ''://'')
        \<or> url_Parse (httpsCoerced (TrimSpace raw)) = None"
    unfolding eq by (auto split: option.splits)
  have ok: "(\<exists>p. url_Parse (httpsCoerced (TrimSpace raw)) = Some p \<and> u = clearQueryFragment p)
          \<and> Scheme u = ''https'' \<and> RawQuery u = [] \<and> \<not> ForceQuery u \<and> Fragment u = []
          \<and> Path u \<noteq> ''/''" if "NormalizeURL raw = Inr u" for u
  proof -
    from that obtain p where p: "url_Parse (httpsCoerced (TrimSpace raw)) = Some p"
      and u: "u = clearQueryFragment p"
      unfolding eq by (auto split: option.splits if_splits)
    from url_Parse_https_Scheme [OF p [unfolded r]] have "Scheme p = ''https''" .
    with p u show ?thesis by (auto simp: clearQueryFragment_def)
  qed
  have pre: "HasPrefix (httpsCoerced (TrimSpace raw)) ''https://''"
    unfolding r by (rule HasPrefix_append)
  from err ok pre show ?thesis by blast
qed

text \<open>
  The theorem at an input with spaces, an http scheme, a root path, a query and a
  fragment, and at an input that declares the scheme \<open>ftp\<close>.
\<close>

theorem NormalizeURL_coerces_to_https_witness:
  "httpPrefixIsScheme (TrimSpace ''  http://example.com/?q=1#top '')
   \<and> httpsCoerced (TrimSpace ''  http://example.com/?q=1#top '') = ''https://example.com/?q=1#top''
   \<and> NormalizeURL ''  http://example.com/?q=1#top ''
     = Inr (newURL\<lparr>Scheme := ''https'', Host := ''example.com''\<rparr>)
   \<and> Scheme (newURL\<lparr>Scheme := ''https'', Host := ''example.com''\<rparr>) = ''https''
   \<and> Path (newURL\<lparr>Scheme := ''https'', Host := ''example.com''\<rparr>) \<noteq> ''/''
   \<and> httpPrefixIsScheme (TrimSpace ''ftp://example.com'')
   \<and> (\<exists>err. NormalizeURL ''ftp://example.com'' = Inl err)"
proof -
  have h: "httpPrefixIsScheme (TrimSpace ''  http://example.com/?q=1#top '')"
    by code_simp
  have c: "httpsCoerced (TrimSpace ''  http://example.com/?q=1#top '')
      = ''https://example.com/?q=1#top''"
    by code_simp
  have n: "NormalizeURL ''  http://example.com/?q=1#top ''
     = Inr (newURL\<lparr>Scheme := ''https'', Host := ''example.com''\<rparr>)"
    by code_simp
  have h2: "httpPrefixIsScheme (TrimSpace ''ftp://example.com'')"
    by code_simp
  have e2: "\<not> schemePrefixed (TrimSpace ''ftp://example.com'')
      \<and> Contains (TrimSpace ''ftp://example.com'') ''://''"
    by code_simp
  from NormalizeURL_coerces_to_https [OF h, THEN conjunct2, THEN conjunct1, rule_format, OF n]
  have "Scheme (newURL\<lparr>Scheme := ''https'', Host := ''example.com''\<rparr>) = ''https''
      \<and> Path (newURL\<lparr>Scheme := ''https'', Host := ''example.com''\<rparr>) \<noteq> ''/''"
    by simp
  moreover from NormalizeURL_coerces_to_https [OF h2, THEN conjunct1] e2
  have "\<exists>err. NormalizeURL ''ftp://example.com'' = Inl err" by blast
  ultimately show ?thesis using h c n h2 by simp
qed

text \<open>
  Claim C4 as stated fails.  \<open>a b\<close> is not empty and declares no scheme (it has no
  colon), yet \<open>NormalizeURL\<close> returns an error: the parser rejects \<open>https://a b\<close>,
  and \<open>NormalizeURL\<close> passes that error on.
\<close>

theorem NormalizeURL_error_cases_counterexample:
  "TrimSpace ''a b'' = ''a b'' \<and> getScheme ''a b'' = Some ([], ''a b'')
   \<and> \<not> Contains ''a b'' '':''
   \<and> NormalizeURL ''a b'' = Inl (InvalidURLParse ''https://a b'')"
  by code_simp

text \<open>
  The inputs the amended claim leaves out start with \<open>http\<close> and with neither
  \<open>http://\<close> nor \<open>https://\<close>.  There the test \<open>HasPrefix(value, "http")\<close> takes the
  string for one with a scheme-like prefix: \<open>httpx://a\<close> keeps the scheme \<open>httpx\<close>
  where \<open>ftp://a\<close> is rejected, and \<open>httpbin.org/get\<close> gets no \<open>https://\<close> in front
  where \<open>example.org/get\<close> does.
\<close>

lemma NormalizeURL_http_prefix:
  "getScheme ''httpx://a'' = Some (''httpx'', ''//a'')
   \<and> NormalizeURL ''httpx://a'' = Inr (newURL\<lparr>Scheme := ''httpx'', Host := ''a''\<rparr>)
   \<and> NormalizeURL ''httpbin.org/get'' = Inr (newURL\<lparr>Path := ''httpbin.org/get''\<rparr>)
   \<and> NormalizeURL ''ftp://a'' = Inl (InvalidURL ''ftp://a'')
   \<and> NormalizeURL ''example.org/get''
       = Inr (newURL\<lparr>Scheme := ''https'', Host := ''example.org'', Path := ''/get''\<rparr>)"
  by code_simp

section \<open>Normalizing twice\<close>

text \<open>
  Claim C10, on the code.  \<open>http:x #f\<close> starts with \<open>http\<close>, so the test
  \<open>HasPrefix(value, "http")\<close> takes it for a string with a scheme-like prefix and puts
  no \<open>https://\<close> in front.  The parser reads the scheme \<open>http\<close> and the opaque part
  \<open>x\<close> followed by a space; the fragment is cleared, and the normalized URL prints as
  \<open>http:x\<close> followed by a space.  Normalized again, that string is trimmed first and
  the result prints as \<open>http:x\<close>: not the same string.  In the same way
  \<open>http%3A//x y\<close> is normalized to \<open>./http://x%20y\<close>, which \<open>NormalizeURL\<close>
  rejects.
\<close>

theorem NormalizeURL_twice_differs:
  "NormalizeURL_String ''http:x #f'' = Inr ''http:x ''
   \<and> NormalizeURL_String ''http:x '' = Inr ''http:x''
   \<and> ''http:x'' \<noteq> ''http:x ''
   \<and> HasPrefix ''http:x #f'' ''http'' \<and> \<not> schemePrefixed ''http:x #f''
   \<and> NormalizeURL_String ''http%3A//x y'' = Inr ''./http://x%20y''
   \<and> NormalizeURL_String ''./http://x%20y'' = Inl (InvalidURL ''./http://x%20y'')
   \<and> HasPrefix ''http%3A//x y'' ''http'' \<and> \<not> schemePrefixed ''http%3A//x y''"
  by code_simp

text \<open>
  Where the test for the prefix and the prefixes \<open>http://\<close> and \<open>https://\<close> agree,
  no input is known on which normalizing twice differs from normalizing once.  On
  the plain URLs it does not: a plain URL is normalized to itself.
\<close>

lemma plainByte_range: "plainByte c \<Longrightarrow> 45 \<le> (of_char c :: nat) \<and> (of_char c :: nat) \<le> 126"
  unfolding plainByte_def isLower_def isUpper_def isDigit_def by auto

lemma pathByte_range: "pathByte c \<Longrightarrow> 45 \<le> (of_char c :: nat) \<and> (of_char c :: nat) \<le> 126"
  using plainByte_range by (auto simp: pathByte_def)

lemma not_pathByte:
  "\<not> pathByte CHR ''#''" "\<not> pathByte CHR ''?''" "\<not> pathByte CHR ''%''"
  "\<not> pathByte CHR ''+''" "\<not> pathByte CHR ''@''" "\<not> pathByte CHR '':''"
  "\<not> pathByte CHR ''[''" "\<not> pathByte CHR ''*''"
  by (simp_all add: pathByte_def plainByte_def isLower_def isUpper_def isDigit_def)

lemma pathByte_ne:
  assumes "pathByte c"
  shows "c \<noteq> CHR ''#''" and "c \<noteq> CHR ''?''" and "c \<noteq> CHR ''%''" and "c \<noteq> CHR ''+''"
    and "c \<noteq> CHR ''@''" and "c \<noteq> CHR '':''" and "c \<noteq> CHR ''[''" and "c \<noteq> CHR ''*''"
  using assms not_pathByte by blast+

lemma plainByte_no_slash: "plainByte c \<Longrightarrow> c \<noteq> CHR ''/''"
  unfolding plainByte_def isLower_def isUpper_def isDigit_def by auto

lemma plainByte_no_escape: "plainByte c \<Longrightarrow> \<not> shouldEscape c mode"
  by (auto simp: plainByte_def shouldEscape_def)

lemma slash_no_escape: "\<not> shouldEscape CHR ''/'' encodePath"
  by (simp add: shouldEscape_def isLower_def isUpper_def isDigit_def)

lemma pathByte_no_escape: "pathByte c \<Longrightarrow> \<not> shouldEscape c encodePath"
  using plainByte_no_escape [of c encodePath] slash_no_escape
  by (auto simp: pathByte_def)

lemma plain_is_path: "plainByte c \<Longrightarrow> pathByte c"
  by (simp add: pathByte_def)

lemma plainByte_no_slash_set: "list_all plainByte h \<Longrightarrow> CHR ''/'' \<notin> set h"
  using plainByte_no_slash by (auto simp: list_all_iff)

text \<open>Trimming.\<close>

lemma leadingRune_ascii:
  assumes "s \<noteq> []" and "33 \<le> (of_char (hd s) :: nat)" and "(of_char (hd s) :: nat) \<le> 126"
  shows "leadingRune spaceRunes s = None" and "leadingRune (map rev spaceRunes) s = None"
proof -
  obtain c cs where s: "s = c # cs" using assms(1) by (cases s) auto
  with assms(2,3) have c: "33 \<le> (of_char c :: nat)" "(of_char c :: nat) \<le> 126"
    by simp_all
  have ne: "(c = d) = False" if "(of_char d :: nat) < 33 \<or> 126 < (of_char d :: nat)" for d
    using that c by auto
  show "leadingRune spaceRunes s = None"
    unfolding s spaceRunes_def
    by (simp add: HasPrefix_def ne)
  show "leadingRune (map rev spaceRunes) s = None"
    unfolding s spaceRunes_def
    by (simp add: HasPrefix_def ne)
qed

lemma trimLeftRunes_None: "leadingRune ws s = None \<Longrightarrow> trimLeftRunes n ws s = s"
  by (cases n) auto

lemma TrimSpace_ascii:
  assumes "s \<noteq> []" and "33 \<le> (of_char (hd s) :: nat)" and "(of_char (hd s) :: nat) \<le> 126"
    and "33 \<le> (of_char (last s) :: nat)" and "(of_char (last s) :: nat) \<le> 126"
  shows "TrimSpace s = s"
proof -
  have l: "TrimLeftSpace s = s"
    unfolding TrimLeftSpace_def
    by (rule trimLeftRunes_None) (rule leadingRune_ascii(1) [OF assms(1,2,3)])
  have "rev s \<noteq> []" and "33 \<le> (of_char (hd (rev s)) :: nat)"
    and "(of_char (hd (rev s)) :: nat) \<le> 126"
    using assms by (simp_all add: hd_rev)
  then have "leadingRune (map rev spaceRunes) (rev s) = None"
    by (rule leadingRune_ascii(2))
  then have "TrimRightSpace s = s"
    unfolding TrimRightSpace_def by (simp add: trimLeftRunes_None)
  with l show ?thesis by (simp add: TrimSpace_def)
qed

text \<open>Searching for a byte that is not there, or that comes first after \<open>h\<close>.\<close>

lemma Index_single_absent: "c \<notin> set s \<Longrightarrow> Index s [c] = None"
  by (induction s) (auto simp: HasPrefix_def)

lemma LastIndex_single_absent: "c \<notin> set s \<Longrightarrow> LastIndex s [c] = None"
  by (induction s) (auto simp: HasPrefix_def)

lemma Cut_single_absent: "c \<notin> set s \<Longrightarrow> Cut s [c] = (s, [], False)"
  by (simp add: Cut_def Index_single_absent)

lemma Index_single_first: "c \<notin> set h \<Longrightarrow> Index (h @ c # r) [c] = Some (length h)"
  by (induction h) (auto simp: HasPrefix_def)

lemma HasSuffix_single_absent: "c \<notin> set s \<Longrightarrow> \<not> HasSuffix s [c]"
proof
  assume a: "c \<notin> set s" and "HasSuffix s [c]"
  then have "drop (length s - 1) s = [c]" by (simp add: HasSuffix_def)
  then have "c \<in> set (drop (length s - 1) s)" by simp
  then have "c \<in> set s" by (rule in_set_dropD)
  with a show False by simp
qed

lemma unescape_path_plain: "list_all pathByte s \<Longrightarrow> unescape s encodePath = Some s"
proof (induction s)
  case Nil
  then show ?case by simp
next
  case (Cons c cs)
  then have "c \<noteq> CHR ''%''" and "c \<noteq> CHR ''+''"
    using pathByte_ne(3,4) by auto
  with Cons show ?case by simp
qed

lemma unescape_host_plain: "list_all plainByte s \<Longrightarrow> unescape s encodeHost = Some s"
proof (induction s)
  case Nil
  then show ?case by simp
next
  case (Cons c cs)
  then have "c \<noteq> CHR ''%''" and "c \<noteq> CHR ''+''" and "\<not> shouldEscape c encodeHost"
    using pathByte_ne(3,4) plain_is_path plainByte_no_escape by auto
  with Cons show ?case by simp
qed

lemma escape_plain: "list_all (\<lambda>c. \<not> shouldEscape c mode) s \<Longrightarrow> escape s mode = s"
  by (induction s) (auto simp: escape_def escapeByte_def)

lemma escape_host_plain: "list_all plainByte s \<Longrightarrow> escape s encodeHost = s"
  by (rule escape_plain) (auto simp: list_all_iff plainByte_no_escape)

lemma escape_path_plain: "list_all pathByte s \<Longrightarrow> escape s encodePath = s"
  by (rule escape_plain) (auto simp: list_all_iff pathByte_no_escape)

lemma parseHost_plain:
  assumes "h \<noteq> []" and "list_all plainByte h"
  shows "parseHost h = Some h"
proof -
  from assms have "pathByte (hd h)"
    by (cases h) (auto simp: plain_is_path)
  then have "hd h \<noteq> CHR ''[''" by (rule pathByte_ne(7))
  with assms(1) have b: "\<not> HasPrefix h ''[''"
    by (cases h) (auto simp: HasPrefix_def)
  have "CHR '':'' \<notin> set h"
    using assms(2) pathByte_ne(6) plain_is_path by (auto simp: list_all_iff)
  then have "LastIndex h '':'' = None" by (rule LastIndex_single_absent)
  with b unescape_host_plain [OF assms(2)] show ?thesis
    by (simp add: parseHost_def)
qed

lemma parseAuthority_plain:
  assumes "h \<noteq> []" and "list_all plainByte h"
  shows "parseAuthority h = Some (None, h)"
proof -
  have "CHR ''@'' \<notin> set h"
    using assms(2) pathByte_ne(5) plain_is_path by (auto simp: list_all_iff)
  then have "LastIndex h ''@'' = None" by (rule LastIndex_single_absent)
  with parseHost_plain [OF assms] show ?thesis
    by (simp add: parseAuthority_def)
qed

lemma setPath_plain:
  assumes "list_all pathByte p"
  shows "setPath u p = Some (u\<lparr>Path := p, RawPath := []\<rparr>)"
  using unescape_path_plain [OF assms] escape_path_plain [OF assms]
  by (simp add: setPath_def)

lemma split_authority:
  assumes "list_all plainByte h" and "p = [] \<or> hd p = CHR ''/''"
  shows "(case Index (h @ p) ''/'' of None \<Rightarrow> h @ p | Some i \<Rightarrow> take i (h @ p)) = h"
    and "(case Index (h @ p) ''/'' of None \<Rightarrow> [] | Some i \<Rightarrow> drop i (h @ p)) = p"
proof -
  note ns = plainByte_no_slash_set [OF assms(1)]
  show "(case Index (h @ p) ''/'' of None \<Rightarrow> h @ p | Some i \<Rightarrow> take i (h @ p)) = h"
  proof (cases p)
    case Nil
    with ns show ?thesis by (simp add: Index_single_absent)
  next
    case (Cons c cs)
    with assms(2) have "p = CHR ''/'' # cs" by simp
    with ns show ?thesis by (simp add: Index_single_first)
  qed
  show "(case Index (h @ p) ''/'' of None \<Rightarrow> [] | Some i \<Rightarrow> drop i (h @ p)) = p"
  proof (cases p)
    case Nil
    with ns show ?thesis by (simp add: Index_single_absent)
  next
    case (Cons c cs)
    with assms(2) have "p = CHR ''/'' # cs" by simp
    with ns show ?thesis by (simp add: Index_single_first)
  qed
qed

lemma parseRest_plain:
  assumes "h \<noteq> []" and "list_all plainByte h" and "list_all pathByte p"
    and "p = [] \<or> hd p = CHR ''/''" and "Scheme u \<noteq> []"
  shows "parseRest u (''//'' @ h @ p) = Some (u\<lparr>User := None, Host := h, Path := p, RawPath := []\<rparr>)"
proof -
  have pre: "HasPrefix (''//'' @ h @ p) ''//''" by (simp add: HasPrefix_def)
  have d: "drop 2 (''//'' @ h @ p) = h @ p" by simp
  show ?thesis
    unfolding parseRest_def Let_def d split_authority [OF assms(2,4)]
    using pre assms(5) parseAuthority_plain [OF assms(1,2)] setPath_plain [OF assms(3)]
    by simp
qed

lemma https_bytes: "list_all (\<lambda>c. pathByte c \<or> c = CHR '':'') ''https://''"
  by (simp add: pathByte_def plainByte_def isLower_def)

lemma urlBytes:
  assumes "list_all plainByte h" and "list_all pathByte p"
  shows "\<forall>c \<in> set (''https://'' @ h @ p). pathByte c \<or> c = CHR '':''"
proof -
  from assms have "list_all (\<lambda>c. pathByte c \<or> c = CHR '':'') (h @ p)"
    by (auto simp: list_all_iff plain_is_path)
  with https_bytes have "list_all (\<lambda>c. pathByte c \<or> c = CHR '':'') (''https://'' @ (h @ p))"
    by (simp only: list_all_append)
  then show ?thesis by (simp only: list_all_iff append_assoc)
qed

lemma no_ctl:
  assumes "\<forall>c \<in> set s. pathByte c \<or> c = CHR '':''"
  shows "\<not> stringContainsCTLByte s"
proof -
  have "\<not> ((of_char c :: nat) < 32 \<or> c = CHR 0x7F)" if "c \<in> set s" for c
  proof -
    from that assms have "pathByte c \<or> c = CHR '':''" by blast
    then show ?thesis
    proof
      assume "pathByte c"
      from pathByte_range [OF this] show ?thesis by auto
    next
      assume "c = CHR '':''"
      then show ?thesis by simp
    qed
  qed
  then show ?thesis by (auto simp: stringContainsCTLByte_def list_ex_iff)
qed

lemma no_byte:
  assumes "\<forall>c \<in> set s. pathByte c \<or> c = CHR '':''"
  shows "CHR ''#'' \<notin> set s" and "CHR ''?'' \<notin> set s"
  using assms pathByte_ne(1,2) by fastforce+

lemma parse_plain:
  assumes "h \<noteq> []" and "list_all plainByte h" and "list_all pathByte p"
    and "p = [] \<or> hd p = CHR ''/''"
  shows "parse (''https://'' @ h @ p) = Some (newURL\<lparr>Scheme := ''https'', Host := h, Path := p\<rparr>)"
proof -
  let ?t = "''https://'' @ h @ p"
  let ?r = "''//'' @ h @ p"
  note b = urlBytes [OF assms(2,3)]
  have ctl: "\<not> stringContainsCTLByte ?t" by (rule no_ctl [OF b])
  have star: "?t \<noteq> ''*''" by simp
  have "set ?r \<subseteq> set ?t" by auto
  with no_byte(2) [OF b] have q: "CHR ''?'' \<notin> set ?r" by blast
  have suf: "\<not> HasSuffix ?r ''?''" by (rule HasSuffix_single_absent [OF q])
  have cut: "Cut ?r ''?'' = (?r, [], False)" by (rule Cut_single_absent [OF q])
  have pre: "HasPrefix ?r ''/''" by (simp add: HasPrefix_def)
  have rest: "parseRest (newURL\<lparr>Scheme := ''https'', RawQuery := []\<rparr>) ?r
      = Some (newURL\<lparr>Scheme := ''https'', RawQuery := [], User := None, Host := h,
                       Path := p, RawPath := []\<rparr>)"
    by (rule parseRest_plain [OF assms]) simp
  have "parse ?t = Some (newURL\<lparr>Scheme := ''https'', RawQuery := [], User := None, Host := h,
                       Path := p, RawPath := []\<rparr>)"
    unfolding parse_def getScheme_https using ctl star suf cut pre rest
    by (simp add: ToLower_https Let_def del: append.simps)
  then show ?thesis by (simp add: newURL_def)
qed

lemma url_Parse_plain:
  assumes "h \<noteq> []" and "list_all plainByte h" and "list_all pathByte p"
    and "p = [] \<or> hd p = CHR ''/''"
  shows "url_Parse (''https://'' @ h @ p)
    = Some (newURL\<lparr>Scheme := ''https'', Host := h, Path := p\<rparr>)"
proof -
  have "CHR ''#'' \<notin> set (''https://'' @ h @ p)"
    by (rule no_byte(1) [OF urlBytes [OF assms(2,3)]])
  then have "Cut (''https://'' @ h @ p) ''#'' = (''https://'' @ h @ p, [], False)"
    by (rule Cut_single_absent)
  with parse_plain [OF assms] show ?thesis
    by (simp add: url_Parse_def del: append.simps)
qed

lemma String_plain:
  assumes "h \<noteq> []" and "list_all plainByte h" and "list_all pathByte p"
    and "p = [] \<or> hd p = CHR ''/''"
  shows "String (newURL\<lparr>Scheme := ''https'', Host := h, Path := p\<rparr>) = ''https://'' @ h @ p"
proof -
  let ?u = "newURL\<lparr>Scheme := ''https'', Host := h, Path := p\<rparr>"
  have star: "p \<noteq> ''*''" using assms(4) by auto
  have path: "EscapedPath ?u = p"
    using star escape_path_plain [OF assms(3)] by (simp add: EscapedPath_def newURL_def)
  have auth: "String_authority ?u = ''//'' @ h"
    using assms(1) escape_host_plain [OF assms(2)]
    by (simp add: String_authority_def newURL_def)
  have hier: "String_hier ?u ''https:'' = ''https://'' @ h @ p"
    unfolding String_hier_def Let_def path auth using assms(1,4)
    by (auto simp: newURL_def)
  show ?thesis
    unfolding String_def Let_def using hier by (simp add: newURL_def)
qed

lemma TrimSpace_plain:
  assumes "h \<noteq> []" and "list_all plainByte h" and "list_all pathByte p"
  shows "TrimSpace (''https://'' @ h @ p) = ''https://'' @ h @ p"
proof -
  let ?t = "''https://'' @ h @ p"
  have "last ?t \<in> set (h @ p)" using assms(1)
    by (metis Nil_is_append_conv last_appendR last_in_set)
  with assms(2,3) have "pathByte (last ?t)"
    by (auto simp: list_all_iff plain_is_path)
  from pathByte_range [OF this]
  have l: "33 \<le> (of_char (last ?t) :: nat)" "(of_char (last ?t) :: nat) \<le> 126" by auto
  show ?thesis
    by (rule TrimSpace_ascii [OF _ _ _ l]) simp_all
qed

lemma NormalizeURL_plain:
  assumes "h \<noteq> []" and "list_all plainByte h" and "list_all pathByte p"
    and "p = [] \<or> hd p = CHR ''/''" and "p \<noteq> ''/''"
  shows "NormalizeURL (''https://'' @ h @ p)
    = Inr (newURL\<lparr>Scheme := ''https'', Host := h, Path := p\<rparr>)"
proof -
  let ?t = "''https://'' @ h @ p"
  have a: "HasPrefix ?t ''http''" and b: "\<not> HasPrefix ?t ''http://''" and c: "?t \<noteq> []"
    by (simp_all add: HasPrefix_def)
  show ?thesis
    unfolding NormalizeURL_def TrimSpace_plain [OF assms(1,2,3)] Let_def
    using a b c url_Parse_plain [OF assms(1,2,3,4)] assms(5)
    by (simp add: newURL_def del: append.simps)
qed

lemma plainURL_split:
  assumes "plainURL t"
  obtains h p where "t = ''https://'' @ h @ p" and "h \<noteq> []" and "list_all plainByte h"
    and "list_all pathByte p" and "p = [] \<or> hd p = CHR ''/''" and "p \<noteq> ''/''"
proof -
  let ?rest = "drop 8 t"
  let ?h = "takeWhile (\<lambda>c. c \<noteq> CHR ''/'') ?rest"
  let ?p = "dropWhile (\<lambda>c. c \<noteq> CHR ''/'') ?rest"
  from assms have pre: "HasPrefix t ''https://''" and h: "?h \<noteq> []" "list_all plainByte ?h"
    and p: "list_all pathByte ?p" "?p \<noteq> ''/''"
    by (simp_all add: plainURL_def Let_def)
  from pre obtain r where r: "t = ''https://'' @ r"
    by (auto simp: HasPrefix_iff)
  then have "?rest = r" by simp
  with r have "t = ''https://'' @ ?rest" by simp
  then have t: "t = ''https://'' @ ?h @ ?p" by simp
  have "?p = [] \<or> hd ?p = CHR ''/''"
    using hd_dropWhile [of "\<lambda>c. c \<noteq> CHR ''/''" ?rest] by auto
  with t h p that show thesis by blast
qed

lemma NormalizeURL_plainURL:
  assumes "plainURL t"
  shows "NormalizeURL_String t = Inr t"
proof -
  from assms obtain h p where t: "t = ''https://'' @ h @ p" and h: "h \<noteq> []" "list_all plainByte h"
    and p: "list_all pathByte p" "p = [] \<or> hd p = CHR ''/''" "p \<noteq> ''/''"
    by (rule plainURL_split)
  show ?thesis
    unfolding NormalizeURL_String_def t NormalizeURL_plain [OF h p]
    using String_plain [OF h p(1,2)] by simp
qed

section \<open>Page processing\<close>

lemma filterURLs_Nil: "filterURLs fb pageURL [] = []"
  by (simp add: filterURLs_def)

lemma extractURLs_Nil: "extractURLs [] domain = []"
  by (simp add: extractURLs_def)

lemma processURL_cache_hit:
  assumes "cache c = Some data" and "data rawURL = Some cachedHTML"
    and "url_Parse rawURL = Some parsedURL"
  shows "processURL c ctxDone pickDone urlStr rawURL =
     (let synth = \<lparr>Response_URL = rawURL, StatusCode = 0, Headers = [], HTML = cachedHTML,
                    Markdown = [], Links = []\<rparr>;
          req = \<lparr>Request_URL = rawURL, OnlyMainContent = False, Prettify = False,
                  Request_Fetcher = getFetcherName c\<rparr>
      in ((case queueDiscoveredURLs_select (IncrementProcessed c) ctxDone pickDone urlStr of
             Inl panic \<Rightarrow> Inl panic
           | Inr c2 \<Rightarrow> Inr (IncrementSucceeded c2)),
          EvCacheGet rawURL #
          (case getParser c (Hostname parsedURL) of
             None \<Rightarrow> [EvCallback req None None]
           | Some parser \<Rightarrow>
               [EvParse synth, EvCallback req (fst (parser synth)) (snd (parser synth))])))"
  using assms
  by (auto simp: processURL_def Let_def IncrementProcessed_def fetchPage_def cacheLookup_def
      parsePage_def newRequest_def getFetcherName_def getParser_def filterURLs_Nil
      extractURLs_Nil queueDiscoveredURLs_def
      split: option.splits sum.splits prod.splits)

text \<open>
  Claim C7.  When the cache holds the raw URL, \<open>processURL\<close> never calls the fetcher
  and never writes the cache.  When the raw URL parses, what it does is this, in
  order: it reads the cache; it makes a response that carries the raw URL and the
  cached markup and nothing else (status code 0, no headers, no links); it hands that
  response to the parser of the domain, if there is one; it calls the callback with
  the request and what the parser returned.  (When the raw URL does not parse,
  \<open>processURL\<close> returns before it reads the cache.)
\<close>

theorem cache_hit_skips_fetcher:
  assumes "cache c = Some data" and "data rawURL = Some cachedHTML"
  shows "(\<forall>req. EvFetch req \<notin> set (snd (processURL c ctxDone pickDone urlStr rawURL)))
    \<and> (\<forall>k v. EvCacheSet k v \<notin> set (snd (processURL c ctxDone pickDone urlStr rawURL)))
    \<and> (\<forall>c'. fst (processURL c ctxDone pickDone urlStr rawURL) = Inr c' \<longrightarrow> cache c' = cache c)
    \<and> (\<forall>parsedURL. url_Parse rawURL = Some parsedURL \<longrightarrow>
          snd (processURL c ctxDone pickDone urlStr rawURL) =
            (let synth = \<lparr>Response_URL = rawURL, StatusCode = 0, Headers = [],
                           HTML = cachedHTML, Markdown = [], Links = []\<rparr>;
                 req = \<lparr>Request_URL = rawURL, OnlyMainContent = False, Prettify = False,
                         Request_Fetcher = getFetcherName c\<rparr>
             in EvCacheGet rawURL #
                (case getParser c (Hostname parsedURL) of
                   None \<Rightarrow> [EvCallback req None None]
                 | Some parser \<Rightarrow>
                     [EvParse synth,
                      EvCallback req (fst (parser synth)) (snd (parser synth))])))"
proof (cases "url_Parse rawURL")
  case None
  then show ?thesis
    by (simp add: processURL_def Let_def IncrementProcessed_def)
next
  case (Some parsedURL)
  note eq = processURL_cache_hit [OF assms Some, of ctxDone pickDone urlStr]
  have c: "cache c' = cache c"
    if "fst (processURL c ctxDone pickDone urlStr rawURL) = Inr c'" for c'
    using that unfolding eq
    by (auto simp: Let_def queueDiscoveredURLs_select_def IncrementProcessed_def
        IncrementSucceeded_def split: sum.splits if_splits)
  show ?thesis
    using c Some unfolding eq
    by (auto simp: Let_def split: option.splits)
qed

text \<open>
  The theorem at the crawler of the test \<open>TestCrawler_WithCache\<close> with a default
  parser: the page is read from the cache, the parser gets the response made from the
  cached markup, the callback gets what the parser returned, and the fetcher, which
  would fail, is not called.
\<close>

theorem cache_hit_skips_fetcher_witness:
  "snd (processURL cachedCrawler False False [] ''https://example.com'')
     = [EvCacheGet ''https://example.com'',
        EvParse \<lparr>Response_URL = ''https://example.com'', StatusCode = 0, Headers = [],
                  HTML = ''<html></html>'', Markdown = [], Links = []\<rparr>,
        EvCallback (demoReq ''https://example.com'') (Some ''<html></html>'') None]
   \<and> EvFetch (demoReq ''https://example.com'')
       \<notin> set (snd (processURL cachedCrawler False False [] ''https://example.com''))
   \<and> fetcher cachedCrawler (demoReq ''https://example.com'')
       = Inl (CollaboratorError ''no mock response configured'')"
proof -
  have c: "cache cachedCrawler = Some [''https://example.com'' \<mapsto> ''<html></html>'']"
    by (simp add: cachedCrawler_def testCrawler_def New_def)
  have d: "[''https://example.com'' \<mapsto> ''<html></html>''] ''https://example.com''
      = Some ''<html></html>''"
    by simp
  have p: "url_Parse ''https://example.com'' = Some demoPage"
    by code_simp
  have h: "Hostname demoPage = ''example.com''"
    by code_simp
  have g: "getParser cachedCrawler ''example.com'' = Some demoParser"
    by (simp add: getParser_def cachedCrawler_def testCrawler_def New_def)
  have n: "getFetcherName cachedCrawler = ''http''"
    by (simp add: getFetcherName_def cachedCrawler_def testCrawler_def New_def)
  have f: "fetcher cachedCrawler (demoReq ''https://example.com'')
       = Inl (CollaboratorError ''no mock response configured'')"
    by (simp add: cachedCrawler_def testCrawler_def New_def testFetcher_def)
  note t = cache_hit_skips_fetcher [OF c d, of False False "[]"]
  from t [THEN conjunct2, THEN conjunct2, THEN conjunct2, rule_format, OF p]
  have "snd (processURL cachedCrawler False False [] ''https://example.com'')
     = [EvCacheGet ''https://example.com'',
        EvParse \<lparr>Response_URL = ''https://example.com'', StatusCode = 0, Headers = [],
                  HTML = ''<html></html>'', Markdown = [], Links = []\<rparr>,
        EvCallback (demoReq ''https://example.com'') (Some ''<html></html>'') None]"
    by (simp add: h g n demoParser_def)
  moreover from t [THEN conjunct1]
  have "EvFetch (demoReq ''https://example.com'')
       \<notin> set (snd (processURL cachedCrawler False False [] ''https://example.com''))"
    by blast
  ultimately show ?thesis using f by simp
qed

section \<open>Discovered links\<close>

text \<open>
  \<open>queueDiscoveredURLs\<close> changes the queue by one send at most, whatever the number
  of links it has marked as seen.
\<close>

lemma queueDiscoveredURLs_loop_queue:
  "queueDiscoveredURLs_loop c urls next = (c', r) \<Longrightarrow>
     queue c' = queue c \<and> queueCap c' = queueCap c \<and> queueClosed c' = queueClosed c
     \<and> cache c' = cache c \<and> stats c' = stats c"
proof (induction urls arbitrary: c "next")
  case Nil
  then show ?case by simp
next
  case (Cons rawURL urls)
  show ?case
  proof (cases "GetProcessed c \<ge> maxURLs c")
    case True
    with Cons.prems show ?thesis by simp
  next
    case False
    show ?thesis
    proof (cases "NormalizeURL rawURL")
      case (Inl err)
      with False Cons.prems Cons.IH [of c "next"] show ?thesis by simp
    next
      case (Inr u)
      let ?c = "c\<lparr>processedURLs := insert (String u) (processedURLs c)\<rparr>"
      from Inr False Cons.prems
      have "queueDiscoveredURLs_loop ?c urls next = (c', r)
          \<or> queueDiscoveredURLs_loop ?c urls (next @ [String u]) = (c', r)"
        by (auto simp: LoadOrStore_def GetProcessed_def split: if_splits)
      then show ?thesis
        using Cons.IH [of ?c "next"] Cons.IH [of ?c "next @ [String u]"] by auto
    qed
  qed
qed

lemma queueDiscoveredURLs_single_push:
  assumes "queueDiscoveredURLs c ctxDone pickDone urlStr urls = Inr c'"
  shows "queue c' = queue c \<or> queue c' = queue c @ [urlStr]"
proof -
  obtain c1 nx where l: "queueDiscoveredURLs_loop c urls [] = (c1, nx)"
    by (cases "queueDiscoveredURLs_loop c urls []") auto
  note q = queueDiscoveredURLs_loop_queue [OF l]
  from assms l q show ?thesis
    by (auto simp: queueDiscoveredURLs_def queueDiscoveredURLs_select_def Let_def
        split: option.splits if_splits)
qed

text \<open>
  Claim C2, on the code.  The test crawler has an empty queue with room for 10000
  entries and has seen nothing; the context is not cancelled.  Given the two
  eligible links \<open>https://example.com/a\<close> and \<open>https://example.com/b\<close>,
  \<open>queueDiscoveredURLs\<close> marks both as seen and then sends once: the queue holds the
  single string \<open>urlStr\<close>, not the two links.
\<close>

theorem queueDiscoveredURLs_sends_once:
  "case queueDiscoveredURLs (testCrawler None) False pickDone urlStr
          [''https://example.com/a'', ''https://example.com/b''] of
     Inl e \<Rightarrow> False
   | Inr c' \<Rightarrow> queue c' = [urlStr]
       \<and> processedURLs c' = {''https://example.com/a'', ''https://example.com/b''}"
proof -
  have a: "NormalizeURL ''https://example.com/a''
      = Inr (newURL\<lparr>Scheme := ''https'', Host := ''example.com'', Path := ''/a''\<rparr>)"
    by code_simp
  have b: "NormalizeURL ''https://example.com/b''
      = Inr (newURL\<lparr>Scheme := ''https'', Host := ''example.com'', Path := ''/b''\<rparr>)"
    by code_simp
  have sa: "String (newURL\<lparr>Scheme := ''https'', Host := ''example.com'', Path := ''/a''\<rparr>)
      = ''https://example.com/a''"
    by code_simp
  have sb: "String (newURL\<lparr>Scheme := ''https'', Host := ''example.com'', Path := ''/b''\<rparr>)
      = ''https://example.com/b''"
    by code_simp
  show ?thesis
    by (simp add: queueDiscoveredURLs_def testCrawler_def New_def GetProcessed_def
        LoadOrStore_def queueDiscoveredURLs_select_def a b sa sb insert_commute)
qed

section \<open>Runs of the crawler\<close>

text \<open>
  The steps of six runs, one lemma for each step: the rule of the step relation and
  the values of its variables.  The state before and the state after are written
  out.
\<close>

lemma step_cong: "step ext s l t \<Longrightarrow> t = t' \<Longrightarrow> step ext s l t'"
  by simp

lemmas demo_defs = demoState_def init_def New_def demoOptions_def LoadOrStore_def
  GetProcessed_def IncrementProcessed_def

lemma nz_k: "NormalizeURL ''example.com'' = Inr demoPage" by code_simp

lemma nz_k2: "NormalizeURL ''https://example.com/'' = Inr demoPage" by code_simp

lemma str_k: "String demoPage = url_k" by code_simp

lemma nz_b: "NormalizeURL ''example.com/b'' = Inr (demoPageAt ''/b'')" by code_simp

lemma str_b: "String (demoPageAt ''/b'') = url_b" by code_simp


lemma nz_a_seed: "NormalizeURL ''example.com/a'' = Inr (demoPageAt ''/a'')" by code_simp

lemma str_a: "String (demoPageAt ''/a'') = url_a" by code_simp

lemma nz_empty: "NormalizeURL [] = Inl InvalidEmptyURL" by code_simp

lemma parse_k: "url_Parse url_k = Some demoPage" by code_simp


lemma parse_a: "url_Parse url_a = Some (demoPageAt ''/a'')" by code_simp

lemma host_k: "Hostname demoPage = ''example.com''" by code_simp


lemma host_a: "Hostname (demoPageAt ''/a'') = ''example.com''" by code_simp

lemma links_k: "filterURLs FollowAny demoPage
     (extractURLs [\<lparr>Link_URL = ''/a'', Link_Text = ''a''\<rparr>] ''example.com'') = [url_a]"
  by code_simp





















































text \<open>The run with the three seeds that the caller cancels while the third seed waits to
  be sent.\<close>

lemma stop1: "step ext
     (init demoOptions False [''example.com'', ''https://example.com/'', ''example.com/b''])
     LMain
     (demoState {} [] False 0 0 0 0 True False (MEnqueue [''example.com'',
        ''https://example.com/'', ''example.com/b''] 0) [WIdle] [] [])"
  by (rule step_cong [OF m_start [where urls = "[''example.com'', ''https://example.com/'',
          ''example.com/b'']"]])
     (simp_all add: demo_defs)

lemma stop2: "step ext
     (demoState {} [] False 0 0 0 0 True False (MEnqueue [''example.com'',
        ''https://example.com/'', ''example.com/b''] 0) [WIdle] [] [])
     (LAdmit url_k)
     (demoState {url_k} [] False 0 0 0 0 True False (MSend url_k [''https://example.com/'',
        ''example.com/b''] 0) [WIdle] [] [])"
  by (rule step_cong [OF m_admit [where rawURL = "''example.com''" and urls =
          "[''https://example.com/'', ''example.com/b'']" and queued = 0 and u = "demoPage"
          and m = "{url_k}", unfolded str_k]])
     (auto simp: demo_defs nz_k str_k)

lemma stop3: "step ext
     (demoState {url_k} [] False 0 0 0 0 True False (MSend url_k [''https://example.com/'',
        ''example.com/b''] 0) [WIdle] [] [])
     (LSend url_k)
     (demoState {url_k} [url_k] False 0 0 0 0 True False (MEnqueue [''https://example.com/'',
        ''example.com/b''] 1) [WIdle] [] [url_k])"
  by (rule step_cong [OF m_send [where v = url_k and urls = "[''https://example.com/'',
          ''example.com/b'']" and queued = 0]])
     (simp_all add: demo_defs)

lemma stop4: "step ext
     (demoState {url_k} [url_k] False 0 0 0 0 True False (MEnqueue [''https://example.com/'',
        ''example.com/b''] 1) [WIdle] [] [url_k])
     LMain
     (demoState {url_k} [url_k] False 0 0 0 0 True False (MEnqueue [''example.com/b''] 1)
        [WIdle] [] [url_k])"
  by (rule step_cong [OF m_seen [where rawURL = "''https://example.com/''" and urls =
          "[''example.com/b'']" and queued = 1 and u = demoPage and m = "{url_k}"]])
     (auto simp add: demo_defs nz_k2 str_k)

lemma stop5: "step ext
     (demoState {url_k} [url_k] False 0 0 0 0 True False (MEnqueue [''example.com/b''] 1)
        [WIdle] [] [url_k])
     (LWorker 0)
     (demoState {url_k} [] False 0 0 0 0 True False (MEnqueue [''example.com/b''] 1) [WGot
        url_k] [] [url_k])"
  by (rule step_cong [OF w_recv [where i = 0 and v = url_k and q = "[]"]])
     (simp_all add: demo_defs)

lemma stop6: "step ext
     (demoState {url_k} [] False 0 0 0 0 True False (MEnqueue [''example.com/b''] 1) [WGot
        url_k] [] [url_k])
     (LWorker 0)
     (demoState {url_k} [] False 0 0 0 0 True False (MEnqueue [''example.com/b''] 1) [WBegin
        url_k] [] [url_k])"
  by (rule step_cong [OF w_begin [where i = 0 and v = url_k]])
     (simp_all add: demo_defs)

lemma stop7: "step ext
     (demoState {url_k} [] False 0 0 0 0 True False (MEnqueue [''example.com/b''] 1) [WBegin
        url_k] [] [url_k])
     (LWorker 0)
     (demoState {url_k} [] False 1 0 0 0 True False (MEnqueue [''example.com/b''] 1) [WActive
        url_k] [] [url_k])"
  by (rule step_cong [OF w_active [where i = 0 and v = url_k]])
     (simp_all add: demo_defs)

lemma stop8: "step ext
     (demoState {url_k} [] False 1 0 0 0 True False (MEnqueue [''example.com/b''] 1) [WActive
        url_k] [] [url_k])
     (LWorker 0)
     (demoState {url_k} [] False 1 1 0 0 True False (MEnqueue [''example.com/b''] 1) [WCounted
        url_k] [] [url_k])"
  by (rule step_cong [OF w_count [where i = 0 and v = url_k]])
     (simp_all add: demo_defs)

lemma stop9: "step ext
     (demoState {url_k} [] False 1 1 0 0 True False (MEnqueue [''example.com/b''] 1) [WCounted
        url_k] [] [url_k])
     (LCallback 0 url_k)
     (demoState {url_k} [] False 1 1 0 0 True False (MEnqueue [''example.com/b''] 1) [WQueue
        [url_a] []] [(demoReq url_k, None, None)] [url_k])"
  by (rule step_cong [OF w_page [where i = 0 and v = url_k and parsedURL = demoPage and
          response = demoResponse and ?c1.0 = "crawler (demoState {url_k} [] False 1 1 0 0
          True False (MEnqueue [''example.com/b''] 1) [WCounted url_k] [] [url_k])" and ev =
          "[EvFetch (demoReq url_k)]" and parsed = None and parseErr = None and evp = "[]"]])
     (simp_all add: demo_defs parse_k host_k links_k fetchPage_def cacheLookup_def
        newRequest_def getFetcherName_def demoFetcher_def parsePage_def getParser_def)

lemma stop10: "step ext
     (demoState {url_k} [] False 1 1 0 0 True False (MEnqueue [''example.com/b''] 1) [WQueue
        [url_a] []] [(demoReq url_k, None, None)] [url_k])
     (LAdmit url_b)
     (demoState {url_k, url_b} [] False 1 1 0 0 True False (MSend url_b [] 1) [WQueue [url_a]
        []] [(demoReq url_k, None, None)] [url_k])"
  by (rule step_cong [OF m_admit [where rawURL = "''example.com/b''" and urls = "[]" and
          queued = 1 and u = "demoPageAt ''/b''" and m = "{url_k, url_b}", unfolded str_b]])
     (auto simp: demo_defs nz_b str_b)

lemma stop11: "step True
     (demoState {url_k, url_b} [] False 1 1 0 0 True False (MSend url_b [] 1) [WQueue [url_a]
        []] [(demoReq url_k, None, None)] [url_k])
     LCancel
     (demoState {url_k, url_b} [] False 1 1 0 0 True True (MSend url_b [] 1) [WQueue [url_a]
        []] [(demoReq url_k, None, None)] [url_k])"
  by (rule step_cong [OF env_cancel])
     (simp_all add: demo_defs)

lemma stop12: "step ext
     (demoState {url_k, url_b} [] False 1 1 0 0 True True (MSend url_b [] 1) [WQueue [url_a]
        []] [(demoReq url_k, None, None)] [url_k])
     LMain
     (demoState {url_k, url_b} [] False 1 1 0 0 True True (MReturning (Some ContextCanceled))
        [WQueue [url_a] []] [(demoReq url_k, None, None)] [url_k])"
  by (rule step_cong [OF m_send_done [where v = url_b and urls = "[]" and queued = 1]])
     (simp_all add: demo_defs)

lemma stop13: "step ext
     (demoState {url_k, url_b} [] False 1 1 0 0 True True (MReturning (Some ContextCanceled))
        [WQueue [url_a] []] [(demoReq url_k, None, None)] [url_k])
     LMain
     (demoState {url_k, url_b} [] True 1 1 0 0 True True (MClosed (Some ContextCanceled))
        [WQueue [url_a] []] [(demoReq url_k, None, None)] [url_k])"
  by (rule step_cong [OF m_close [where r = "Some ContextCanceled"]])
     (simp_all add: demo_defs)

lemma stop14: "step ext
     (demoState {url_k, url_b} [] True 1 1 0 0 True True (MClosed (Some ContextCanceled))
        [WQueue [url_a] []] [(demoReq url_k, None, None)] [url_k])
     LMain
     (demoState {url_k, url_b} [] True 1 1 0 0 False True (MReturned (Some ContextCanceled))
        [WQueue [url_a] []] [(demoReq url_k, None, None)] [url_k])"
  by (rule step_cong [OF m_cancel [where r = "Some ContextCanceled"]])
     (simp_all add: demo_defs)

lemma stop_run10: "steps True
     (init demoOptions False [''example.com'', ''https://example.com/'', ''example.com/b''])
     (demoState {url_k, url_b} [] False 1 1 0 0 True False (MSend url_b [] 1) [WQueue [url_a]
        []] [(demoReq url_k, None, None)] [url_k])"
  by (intro steps_step [OF _ stop10] steps_step [OF _ stop9] steps_step [OF _ stop8]
      steps_step [OF _ stop7] steps_step [OF _ stop6] steps_step [OF _ stop5] steps_step [OF _
      stop4] steps_step [OF _ stop3] steps_step [OF _ stop2] steps_step [OF _ stop1]
      steps_refl)

lemma stop_run14: "steps True
     (demoState {url_k, url_b} [] False 1 1 0 0 True True (MSend url_b [] 1) [WQueue [url_a]
        []] [(demoReq url_k, None, None)] [url_k])
     (demoState {url_k, url_b} [] True 1 1 0 0 False True (MReturned (Some ContextCanceled))
        [WQueue [url_a] []] [(demoReq url_k, None, None)] [url_k])"
  by (intro steps_step [OF _ stop14] steps_step [OF _ stop13] steps_step [OF _ stop12]
      steps_refl)

text \<open>The run whose only seed is the empty string.\<close>

lemma bad1: "step ext
     (init demoOptions False [[]])
     LMain
     (demoState {} [] False 0 0 0 0 True False (MEnqueue [[]] 0) [WIdle] [] [])"
  by (rule step_cong [OF m_start [where urls = "[[]]"]])
     (simp_all add: demo_defs)

lemma bad2: "step ext
     (demoState {} [] False 0 0 0 0 True False (MEnqueue [[]] 0) [WIdle] [] [])
     LMain
     (demoState {} [] False 0 0 0 0 True False (MReturning (Some InvalidEmptyURL)) [WIdle] []
        [])"
  by (rule step_cong [OF m_invalid [where rawURL = "[]" and urls = "[]" and queued = 0 and err
          = InvalidEmptyURL]])
     (simp_all add: demo_defs nz_empty)

lemma bad3: "step ext
     (demoState {} [] False 0 0 0 0 True False (MReturning (Some InvalidEmptyURL)) [WIdle] []
        [])
     LMain
     (demoState {} [] True 0 0 0 0 True False (MClosed (Some InvalidEmptyURL)) [WIdle] [] [])"
  by (rule step_cong [OF m_close [where r = "Some InvalidEmptyURL"]])
     (simp_all add: demo_defs)

lemma bad4: "step ext
     (demoState {} [] True 0 0 0 0 True False (MClosed (Some InvalidEmptyURL)) [WIdle] [] [])
     LMain
     (demoState {} [] True 0 0 0 0 False True (MReturned (Some InvalidEmptyURL)) [WIdle] []
        [])"
  by (rule step_cong [OF m_cancel [where r = "Some InvalidEmptyURL"]])
     (simp_all add: demo_defs)

lemma bad_run: "steps ext
     (init demoOptions False [[]])
     (demoState {} [] True 0 0 0 0 False True (MReturned (Some InvalidEmptyURL)) [WIdle] []
        [])"
  by (intro steps_step [OF _ bad4] steps_step [OF _ bad3] steps_step [OF _ bad2] steps_step
      [OF _ bad1] steps_refl)

text \<open>The run with the single seed \<open>example.com/a\<close>, which the fetcher does not know.\<close>

lemma fail1: "step ext
     (init demoOptions False [''example.com/a''])
     LMain
     (demoState {} [] False 0 0 0 0 True False (MEnqueue [''example.com/a''] 0) [WIdle] [] [])"
  by (rule step_cong [OF m_start [where urls = "[''example.com/a'']"]])
     (simp_all add: demo_defs)

lemma fail2: "step ext
     (demoState {} [] False 0 0 0 0 True False (MEnqueue [''example.com/a''] 0) [WIdle] [] [])
     (LAdmit url_a)
     (demoState {url_a} [] False 0 0 0 0 True False (MSend url_a [] 0) [WIdle] [] [])"
  by (rule step_cong [OF m_admit [where rawURL = "''example.com/a''" and urls = "[]" and
          queued = 0 and u = "demoPageAt ''/a''" and m = "{url_a}", unfolded str_a]])
     (auto simp: demo_defs nz_a_seed str_a)

lemma fail3: "step ext
     (demoState {url_a} [] False 0 0 0 0 True False (MSend url_a [] 0) [WIdle] [] [])
     (LSend url_a)
     (demoState {url_a} [url_a] False 0 0 0 0 True False (MEnqueue [] 1) [WIdle] [] [url_a])"
  by (rule step_cong [OF m_send [where v = url_a and urls = "[]" and queued = 0]])
     (simp_all add: demo_defs)

lemma fail4: "step ext
     (demoState {url_a} [url_a] False 0 0 0 0 True False (MEnqueue [] 1) [WIdle] [] [url_a])
     LMain
     (demoState {url_a} [url_a] False 0 0 0 0 True False (MWait) [WIdle] [] [url_a])"
  by (rule step_cong [OF m_wait [where queued = 1]])
     (simp_all add: demo_defs)

lemma fail5: "step ext
     (demoState {url_a} [url_a] False 0 0 0 0 True False (MWait) [WIdle] [] [url_a])
     (LWorker 0)
     (demoState {url_a} [] False 0 0 0 0 True False (MWait) [WGot url_a] [] [url_a])"
  by (rule step_cong [OF w_recv [where i = 0 and v = url_a and q = "[]"]])
     (simp_all add: demo_defs)

lemma fail6: "step ext
     (demoState {url_a} [] False 0 0 0 0 True False (MWait) [WGot url_a] [] [url_a])
     (LWorker 0)
     (demoState {url_a} [] False 0 0 0 0 True False (MWait) [WBegin url_a] [] [url_a])"
  by (rule step_cong [OF w_begin [where i = 0 and v = url_a]])
     (simp_all add: demo_defs)

lemma fail7: "step ext
     (demoState {url_a} [] False 0 0 0 0 True False (MWait) [WBegin url_a] [] [url_a])
     (LWorker 0)
     (demoState {url_a} [] False 1 0 0 0 True False (MWait) [WActive url_a] [] [url_a])"
  by (rule step_cong [OF w_active [where i = 0 and v = url_a]])
     (simp_all add: demo_defs)

lemma fail8: "step ext
     (demoState {url_a} [] False 1 0 0 0 True False (MWait) [WActive url_a] [] [url_a])
     (LWorker 0)
     (demoState {url_a} [] False 1 1 0 0 True False (MWait) [WCounted url_a] [] [url_a])"
  by (rule step_cong [OF w_count [where i = 0 and v = url_a]])
     (simp_all add: demo_defs)

lemma fail9: "step ext
     (demoState {url_a} [] False 1 1 0 0 True False (MWait) [WCounted url_a] [] [url_a])
     (LCallback 0 url_a)
     (demoState {url_a} [] False 1 1 0 0 True False (MWait) [WFailed] [(demoReq url_a, None,
        Some demoError)] [url_a])"
  by (rule step_cong [OF w_fetch_error [where i = 0 and v = url_a and parsedURL = "demoPageAt
          ''/a''" and err = demoError and ev = "[EvFetch (demoReq url_a)]"]])
     (simp_all add: demo_defs parse_a fetchPage_def cacheLookup_def newRequest_def
        getFetcherName_def demoFetcher_def)

lemma fail10: "step ext
     (demoState {url_a} [] False 1 1 0 0 True False (MWait) [WFailed] [(demoReq url_a, None,
        Some demoError)] [url_a])
     (LWorker 0)
     (demoState {url_a} [] False 1 1 0 1 True False (MWait) [WLeave] [(demoReq url_a, None,
        Some demoError)] [url_a])"
  by (rule step_cong [OF w_failed [where i = 0]])
     (simp_all add: demo_defs IncrementFailed_def)

lemma fail11: "step ext
     (demoState {url_a} [] False 1 1 0 1 True False (MWait) [WLeave] [(demoReq url_a, None,
        Some demoError)] [url_a])
     (LWorker 0)
     (demoState {url_a} [] False 0 1 0 1 True False (MWait) [WIdle] [(demoReq url_a, None,
        Some demoError)] [url_a])"
  by (rule step_cong [OF w_leave [where i = 0]])
     (simp_all add: demo_defs)

lemma fail12: "step ext
     (demoState {url_a} [] False 0 1 0 1 True False (MWait) [WIdle] [(demoReq url_a, None,
        Some demoError)] [url_a])
     LCancel
     (demoState {url_a} [] False 0 1 0 1 True True (MWait) [WIdle] [(demoReq url_a, None, Some
        demoError)] [url_a])"
  by (rule step_cong [OF idle_cancel])
     (simp_all add: demo_defs)

lemma fail13: "step ext
     (demoState {url_a} [] False 0 1 0 1 True True (MWait) [WIdle] [(demoReq url_a, None, Some
        demoError)] [url_a])
     (LWorker 0)
     (demoState {url_a} [] False 0 1 0 1 True True (MWait) [WExited] [(demoReq url_a, None,
        Some demoError)] [url_a])"
  by (rule step_cong [OF w_done [where i = 0]])
     (simp_all add: demo_defs)

lemma fail14: "step ext
     (demoState {url_a} [] False 0 1 0 1 True True (MWait) [WExited] [(demoReq url_a, None,
        Some demoError)] [url_a])
     LMain
     (demoState {url_a} [] False 0 1 0 1 True True (MReturning None) [WExited] [(demoReq
        url_a, None, Some demoError)] [url_a])"
  by (rule step_cong [OF m_waited])
     (simp_all add: demo_defs)

lemma fail15: "step ext
     (demoState {url_a} [] False 0 1 0 1 True True (MReturning None) [WExited] [(demoReq
        url_a, None, Some demoError)] [url_a])
     LMain
     (demoState {url_a} [] True 0 1 0 1 True True (MClosed (None)) [WExited] [(demoReq url_a,
        None, Some demoError)] [url_a])"
  by (rule step_cong [OF m_close [where r = None]])
     (simp_all add: demo_defs)

lemma fail16: "step ext
     (demoState {url_a} [] True 0 1 0 1 True True (MClosed (None)) [WExited] [(demoReq url_a,
        None, Some demoError)] [url_a])
     LMain
     (demoState {url_a} [] True 0 1 0 1 False True (MReturned (None)) [WExited] [(demoReq
        url_a, None, Some demoError)] [url_a])"
  by (rule step_cong [OF m_cancel [where r = None]])
     (simp_all add: demo_defs)

lemma fail_run: "steps ext
     (init demoOptions False [''example.com/a''])
     (demoState {url_a} [] True 0 1 0 1 False True (MReturned (None)) [WExited] [(demoReq
        url_a, None, Some demoError)] [url_a])"
  by (intro steps_step [OF _ fail16] steps_step [OF _ fail15] steps_step [OF _ fail14]
      steps_step [OF _ fail13] steps_step [OF _ fail12] steps_step [OF _ fail11] steps_step
      [OF _ fail10] steps_step [OF _ fail9] steps_step [OF _ fail8] steps_step [OF _ fail7]
      steps_step [OF _ fail6] steps_step [OF _ fail5] steps_step [OF _ fail4] steps_step [OF _
      fail3] steps_step [OF _ fail2] steps_step [OF _ fail1] steps_refl)

lemma already: "step ext (init demoOptions True demoSeeds) LMain
     ((init demoOptions True demoSeeds)\<lparr>main := MReturned (Some AlreadyRunning)\<rparr>)"
  by (rule m_already [where urls = demoSeeds]) (simp_all add: init_def)

























section \<open>What \<open>Crawl\<close> returns\<close>

lemma steps_trans: "steps ext t u \<Longrightarrow> steps ext s t \<Longrightarrow> steps ext s u"
  by (induction rule: steps.induct) (auto intro: steps_step)

lemma fetchPage_crawler:
  "fetchPage c req v = (Inr (response, c1), ev) \<Longrightarrow> \<exists>ch. c1 = c\<lparr>cache := ch\<rparr>"
proof -
  assume "fetchPage c req v = (Inr (response, c1), ev)"
  then have "c1 = c \<or> (\<exists>ch. c1 = c\<lparr>cache := ch\<rparr>)"
    by (auto simp: fetchPage_def cacheLookup_def split: option.splits sum.splits if_splits)
  moreover have "c = c\<lparr>cache := cache c\<rparr>" by simp
  ultimately show ?thesis by metis
qed

lemma returns_ok_step:
  assumes "returns_ok ext s0 r urls s res" and "step ext s l s'"
  shows "returns_ok ext s0 r urls s' res"
proof -
  have "cancelled_in_send ext s0 urls s \<Longrightarrow> cancelled_in_send ext s0 urls s'"
    unfolding cancelled_in_send_def using steps_step [OF _ assms(2)] by blast
  with assms(1) show ?thesis
    by (auto simp: returns_ok_def split: option.splits)
qed

lemma step_frame:
  assumes "step ext s l s'"
  shows "processedURLs (crawler s) \<subseteq> processedURLs (crawler s')"
    and "main s' = main s \<Longrightarrow> running (crawler s') = running (crawler s)"
  using assms
  by (induction rule: step.induct)
     (auto simp: LoadOrStore_def IncrementProcessed_def IncrementFailed_def
        IncrementSucceeded_def dest!: fetchPage_crawler)

lemma main_ok_step:
  assumes "steps ext s0 s" and "step ext s l s'" and "main_ok ext s0 r urls s (main s)"
  shows "main_ok ext s0 r urls s' (main s')"
proof (cases "main s")
  case (MStart us)
  from assms(2) show ?thesis
    using MStart assms(3)
    by (cases rule: step.cases)
       (auto simp: returns_ok_def IncrementProcessed_def IncrementFailed_def
          IncrementSucceeded_def dest!: fetchPage_crawler)
next
  case (MEnqueue us queued)
  from assms(2) show ?thesis
    using MEnqueue assms(3)
    by (cases rule: step.cases)
       (auto simp: returns_ok_def LoadOrStore_def IncrementProcessed_def IncrementFailed_def
          IncrementSucceeded_def dest!: fetchPage_crawler)
next
  case (MSend v us queued)
  have canc: "cancelled s \<Longrightarrow> cancelled_in_send ext s0 urls s'"
    unfolding cancelled_in_send_def
    using assms MSend steps_step [OF steps_refl assms(2)] by auto
  note sub = step_frame(1) [OF assms(2)]
  from assms(2) show ?thesis
    using MSend assms(3) sub canc
    by (cases rule: step.cases)
       (auto simp: returns_ok_def IncrementProcessed_def IncrementFailed_def
          IncrementSucceeded_def dest!: fetchPage_crawler)
next
  case MWait
  from assms(2) show ?thesis
    using MWait assms(3)
    by (cases rule: step.cases)
       (auto simp: returns_ok_def IncrementProcessed_def IncrementFailed_def
          IncrementSucceeded_def dest!: fetchPage_crawler)
next
  case (MReturning res)
  with assms(3) have ok: "returns_ok ext s0 r urls s' res"
    using returns_ok_step [OF _ assms(2)] by simp
  from assms(2) MReturning have "main s' = MReturning res \<or> main s' = MClosed res"
    by (cases rule: step.cases) auto
  with ok show ?thesis by auto
next
  case (MClosed res)
  with assms(3) have ok: "returns_ok ext s0 r urls s' res"
    using returns_ok_step [OF _ assms(2)] by simp
  from assms(2) MClosed have "main s' = MClosed res \<or> main s' = MReturned res"
    by (cases rule: step.cases) auto
  with ok show ?thesis by auto
next
  case (MReturned res)
  with assms(3) have ok: "returns_ok ext s0 r urls s' res"
    using returns_ok_step [OF _ assms(2)] by simp
  from assms(2) MReturned have "main s' = MReturned res"
    by (cases rule: step.cases) auto
  with ok show ?thesis by auto
qed

lemma main_ok_steps:
  "steps ext s0 s \<Longrightarrow> main_ok ext s0 r urls s0 (main s0) \<Longrightarrow> main_ok ext s0 r urls s (main s)"
  by (induction rule: steps.induct) (auto intro: main_ok_step)

lemma main_ok_init: "main_ok ext (init opts r urls) r urls (init opts r urls) (main (init opts r urls))"
  by (simp add: init_def New_def)

text \<open>
  Claim C3, as amended.  When \<open>Crawl\<close> has returned, what it returned is one of these.
  The error \<open>AlreadyRunning\<close>: a run was in progress.  The error of \<open>NormalizeURL\<close>
  for the first seed that it rejects.  The error of the context: at some state of
  the run \<open>Crawl\<close> was blocked in the send of a seed's key, which it had stored in the
  seen set, and the context was cancelled.  No error: no run was in progress and
  every seed normalizes.  What the fetcher and the parsers return is no part of it.
\<close>

theorem crawl_error_cases:
  assumes "steps ext (init opts r urls) s" and "main s = MReturned res"
  shows "case res of
      None \<Rightarrow> \<not> r \<and> firstError urls = None
    | Some e \<Rightarrow>
        (r \<and> e = AlreadyRunning)
        \<or> (\<not> r \<and> firstError urls = Some e)
        \<or> (\<not> r \<and> e = ContextCanceled
            \<and> (\<exists>t v rest queued. steps ext (init opts r urls) t \<and> steps ext t s
                  \<and> main t = MSend v rest queued \<and> cancelled t
                  \<and> v \<in> set (seedKeys urls) \<and> v \<in> processedURLs (crawler t)))"
  using main_ok_steps [OF assms(1) main_ok_init] assms(2)
  by (auto simp: returns_ok_def cancelled_in_send_def split: option.splits)

text \<open>
  The theorem on four runs.  The caller cancels while the third seed waits to be
  sent: \<open>Crawl\<close> returns the error of the context, and the run went through a state
  as the theorem says.  The only seed is the empty string: \<open>Crawl\<close> returns the error
  of \<open>NormalizeURL\<close>.  The fetcher fails on the only seed: the error goes to the
  callback and \<open>Crawl\<close> returns no error.  A run is in progress: \<open>Crawl\<close> returns
  \<open>AlreadyRunning\<close>.
\<close>

theorem crawl_error_cases_witness:
  "steps True
     (init demoOptions False [''example.com'', ''https://example.com/'', ''example.com/b''])
     (demoState {url_k, url_b} [] True 1 1 0 0 False True (MReturned (Some ContextCanceled))
        [WQueue [url_a] []] [(demoReq url_k, None, None)] [url_k])
   \<and> (\<exists>t v rest queued.
         steps True (init demoOptions False demoSeeds) t
         \<and> steps True t
             (demoState {url_k, url_b} [] True 1 1 0 0 False True (MReturned (Some
                ContextCanceled)) [WQueue [url_a] []] [(demoReq url_k, None, None)] [url_k])
         \<and> main t = MSend v rest queued \<and> cancelled t
         \<and> v \<in> set (seedKeys demoSeeds) \<and> v \<in> processedURLs (crawler t))
   \<and> steps False
        (init demoOptions False [[]])
        (demoState {} [] True 0 0 0 0 False True (MReturned (Some InvalidEmptyURL)) [WIdle] []
           [])
   \<and> firstError [[]] = Some InvalidEmptyURL
   \<and> steps False
        (init demoOptions False [''example.com/a''])
        (demoState {url_a} [] True 0 1 0 1 False True (MReturned (None)) [WExited] [(demoReq
           url_a, None, Some demoError)] [url_a])
   \<and> firstError [''example.com/a''] = None
   \<and> steps False (init demoOptions True demoSeeds)
        ((init demoOptions True demoSeeds)\<lparr>main := MReturned (Some AlreadyRunning)\<rparr>)"
proof -
  have c: "steps True
        (init demoOptions False [''example.com'', ''https://example.com/'',
           ''example.com/b''])
        (demoState {url_k, url_b} [] True 1 1 0 0 False True (MReturned (Some
           ContextCanceled)) [WQueue [url_a] []] [(demoReq url_k, None, None)] [url_k])"
    by (rule steps_trans [OF stop_run14 steps_step [OF stop_run10 stop11]])
  have fc: "firstError demoSeeds = None"
    by (simp add: nz_k nz_k2 nz_b)
  from crawl_error_cases [OF c, of "Some ContextCanceled"] fc
  have wc: "\<exists>t v rest queued.
         steps True (init demoOptions False demoSeeds) t
         \<and> steps True t
             (demoState {url_k, url_b} [] True 1 1 0 0 False True (MReturned (Some
                ContextCanceled)) [WQueue [url_a] []] [(demoReq url_k, None, None)] [url_k])
         \<and> main t = MSend v rest queued \<and> cancelled t
         \<and> v \<in> set (seedKeys demoSeeds) \<and> v \<in> processedURLs (crawler t)"
    by (simp add: demoState_def)
  from crawl_error_cases [OF bad_run, of "Some InvalidEmptyURL"]
  have wd: "firstError [[]] = Some InvalidEmptyURL"
    by (simp add: demoState_def)
  from crawl_error_cases [OF fail_run, of None]
  have we: "firstError [''example.com/a''] = None"
    by (simp add: demoState_def)
  have a: "steps False (init demoOptions True demoSeeds)
        ((init demoOptions True demoSeeds)\<lparr>main := MReturned (Some AlreadyRunning)\<rparr>)"
    by (rule steps_step [OF steps_refl already])
  from crawl_error_cases [OF a, of "Some AlreadyRunning"] c wc bad_run wd fail_run we a
  show ?thesis by simp
qed

text \<open>
  Claim C3 as stated fails, twice.  The run with the empty string for its only seed
  returns the error of \<open>NormalizeURL\<close>, which is neither \<open>AlreadyRunning\<close> nor a
  cancellation, and the callback is not called.  In the run with the three seeds
  \<open>https://example.com\<close> is stored, sent, received and delivered to the callback, and
  the context is not cancelled; then the caller cancels, and \<open>Crawl\<close>, blocked in the
  send of the third seed, returns the error of the context: a cancellation after a
  URL was admitted.
\<close>

theorem crawl_returns_seed_error_counterexample:
  "steps False
     (init demoOptions False [[]])
     (demoState {} [] True 0 0 0 0 False True (MReturned (Some InvalidEmptyURL)) [WIdle] []
        [])
   \<and> NormalizeURL [] = Inl InvalidEmptyURL
   \<and> InvalidEmptyURL \<noteq> AlreadyRunning \<and> InvalidEmptyURL \<noteq> ContextCanceled
   \<and> callbacks
        (demoState {} [] True 0 0 0 0 False True (MReturned (Some InvalidEmptyURL)) [WIdle] []
           []) = []
   \<and> steps True
        (init demoOptions False [''example.com'', ''https://example.com/'',
           ''example.com/b''])
        (demoState {url_k, url_b} [] False 1 1 0 0 True False (MSend url_b [] 1) [WQueue
           [url_a] []] [(demoReq url_k, None, None)] [url_k])
   \<and> pushed
        (demoState {url_k, url_b} [] False 1 1 0 0 True False (MSend url_b [] 1) [WQueue
           [url_a] []] [(demoReq url_k, None, None)] [url_k]) = [url_k]
   \<and> callbacks
        (demoState {url_k, url_b} [] False 1 1 0 0 True False (MSend url_b [] 1) [WQueue
           [url_a] []] [(demoReq url_k, None, None)] [url_k])
       = [(demoReq url_k, None, None)]
   \<and> cancelled
        (demoState {url_k, url_b} [] False 1 1 0 0 True False (MSend url_b [] 1) [WQueue
           [url_a] []] [(demoReq url_k, None, None)] [url_k]) = False
   \<and> step True
        (demoState {url_k, url_b} [] False 1 1 0 0 True False (MSend url_b [] 1) [WQueue
           [url_a] []] [(demoReq url_k, None, None)] [url_k])
        LCancel
        (demoState {url_k, url_b} [] False 1 1 0 0 True True (MSend url_b [] 1) [WQueue
           [url_a] []] [(demoReq url_k, None, None)] [url_k])
   \<and> steps True
        (demoState {url_k, url_b} [] False 1 1 0 0 True True (MSend url_b [] 1) [WQueue
           [url_a] []] [(demoReq url_k, None, None)] [url_k])
        (demoState {url_k, url_b} [] True 1 1 0 0 False True (MReturned (Some
           ContextCanceled)) [WQueue [url_a] []] [(demoReq url_k, None, None)] [url_k])"
  using bad_run stop_run10 stop11 stop_run14 by (simp add: demoState_def nz_empty)

end
